theory Spec2Isabelle
  imports Main "HOL-Library.Sublist" "HOL-Library.Multiset"
begin

section \<open>The asset ingestion pipeline of scripts/download\_nvidia\_assets.py\<close>

text \<open>
  The development embeds the class \<^verbatim>\<open>AssetPipeline\<close>: its download, extraction,
  location, conversion, cataloguing and save steps. The pipeline talks to a file system,
  to the network, to zip archives and to external converter programs. The file system is
  an explicit tree; the network, the archive reader, the tool lookup and the subprocess
  runner are oracles collected in a record \<open>env\<close>. Every call that can raise in the
  source returns a sum here, and every function that has effects threads the state and
  keeps it when it raises.
\<close>

subsection \<open>Paths and names\<close>

text \<open>
  A path is the list of its components below the root. A pack id, a category and an
  asset name each give one component: the ids and categories of
  \<^verbatim>\<open>NVIDIA_ASSETS\<close> and the names found by a directory scan hold no separator.
\<close>

type_synonym path = "string list"

definition path_name :: "path \<Rightarrow> string" where
  "path_name p = (if p = [] then [] else last p)"

definition path_str :: "path \<Rightarrow> string" where
  "path_str p = concat (map (\<lambda>c. CHR ''/'' # c) p)"

definition ends_with :: "string \<Rightarrow> string \<Rightarrow> bool" where
  "ends_with ext nm = (length ext \<le> length nm \<and> drop (length nm - length ext) nm = ext)"

text \<open>\<^verbatim>\<open>str.rfind('.')\<close>: the index of the last dot, \<open>None\<close> for Python's \<open>-1\<close>.\<close>

fun rfind_dot :: "string \<Rightarrow> nat option" where
  "rfind_dot [] = None"
| "rfind_dot (c # cs) =
     (case rfind_dot cs of
        Some i \<Rightarrow> Some (Suc i)
      | None \<Rightarrow> if c = CHR ''.'' then Some 0 else None)"

text \<open>
  \<^verbatim>\<open>PurePath.stem\<close>: the name without its last suffix; a dot in first or last
  position starts no suffix.
\<close>

definition stem :: "path \<Rightarrow> string" where
  "stem p =
     (let nm = path_name p in
      case rfind_dot nm of
        None \<Rightarrow> nm
      | Some i \<Rightarrow> if 0 < i \<and> i < length nm - 1 then take i nm else nm)"

subsection \<open>Strings: replace and title\<close>

definition is_lower :: "char \<Rightarrow> bool" where
  "is_lower c = (97 \<le> (of_char c :: nat) \<and> (of_char c :: nat) \<le> 122)"

definition is_upper :: "char \<Rightarrow> bool" where
  "is_upper c = (65 \<le> (of_char c :: nat) \<and> (of_char c :: nat) \<le> 90)"

definition to_upper :: "char \<Rightarrow> char" where
  "to_upper c = (if is_lower c then char_of ((of_char c :: nat) - 32) else c)"

definition to_lower :: "char \<Rightarrow> char" where
  "to_lower c = (if is_upper c then char_of ((of_char c :: nat) + 32) else c)"

text \<open>
  \<^verbatim>\<open>str.title()\<close> on ASCII text: a letter that follows a letter is lowered, any
  other letter is raised. The flag says whether the previous character was a letter.
\<close>

fun title_from :: "bool \<Rightarrow> string \<Rightarrow> string" where
  "title_from prev [] = []"
| "title_from prev (c # cs) =
     (if prev then to_lower c else to_upper c) # title_from (is_lower c \<or> is_upper c) cs"

definition display_name :: "string \<Rightarrow> string" where
  "display_name s = title_from False (map (\<lambda>c. if c = CHR ''_'' then CHR '' '' else c) s)"

subsection \<open>Pack configuration and asset metadata\<close>

record config =
  url :: string
  category :: string
  physics :: bool
  description :: string

record asset =
  asset_id :: string
  asset_name :: string
  asset_path :: string
  asset_category :: string
  physics_enabled :: bool
  asset_source :: string
  thumbnail :: string

type_synonym registry = "(string \<times> asset list) list"

definition NVIDIA_ASSETS :: "(string \<times> config) list" where
  "NVIDIA_ASSETS =
   [(''simready_warehouse_01'',
     \<lparr>url = ''https://omniverse-content-production.s3-us-west-2.amazonaws.com/Assets/ArchVis/Commercial/Warehouse/SimReady_Props_Warehouse_01.zip'',
      category = ''warehouse'', physics = True,
      description = ''Physics-enabled warehouse props (pallets, crates, barrels)''\<rparr>),
    (''simready_containers'',
     \<lparr>url = ''https://omniverse-content-production.s3-us-west-2.amazonaws.com/Assets/ArchVis/Industrial/Shipping_Containers/SimReady_Containers_and_Shipping_01.zip'',
      category = ''industrial'', physics = True,
      description = ''Industrial shipping containers and cargo boxes''\<rparr>),
    (''simready_furniture'',
     \<lparr>url = ''https://omniverse-content-production.s3-us-west-2.amazonaws.com/Assets/ArchVis/Commercial/Furniture/SimReady_Furniture_and_Misc.zip'',
      category = ''furniture'', physics = True,
      description = ''Interior and exterior furniture with physics''\<rparr>)]"

subsection \<open>The file system\<close>

text \<open>
  A file holds raw bytes or the JSON text of a registry (what \<^verbatim>\<open>json.dump\<close>
  writes, kept as the value it serialises). A directory lists its entries in the order a
  scan of it yields them.
\<close>

datatype fdata = Raw string | RegistryJson registry

datatype fsnode = File string fdata | Dir string "fsnode list"

datatype exn =
    ConnectionError
  | HTTPError nat
  | ValueError
  | ChunkedEncodingError
  | BadZipFile
  | FileNotFoundError
  | FileExistsError
  | IsADirectoryError
  | NotADirectoryError
  | PermissionError
  | CalledProcessError nat

fun node_name :: "fsnode \<Rightarrow> string" where
  "node_name (File nm d) = nm"
| "node_name (Dir nm ks) = nm"

fun is_dir :: "fsnode \<Rightarrow> bool" where
  "is_dir (File nm d) = False"
| "is_dir (Dir nm ks) = True"

fun find_child :: "string \<Rightarrow> fsnode list \<Rightarrow> fsnode option" where
  "find_child nm [] = None"
| "find_child nm (k # ks) = (if node_name k = nm then Some k else find_child nm ks)"

text \<open>Replace the entry of the same name, or add the node as the last entry.\<close>

fun set_child :: "fsnode \<Rightarrow> fsnode list \<Rightarrow> fsnode list" where
  "set_child n [] = [n]"
| "set_child n (k # ks) = (if node_name k = node_name n then n # ks else k # set_child n ks)"

fun lookup :: "fsnode \<Rightarrow> path \<Rightarrow> fsnode option" where
  "lookup n [] = Some n"
| "lookup (File nm d) (c # cs) = None"
| "lookup (Dir nm ks) (c # cs) =
     (case find_child c ks of None \<Rightarrow> None | Some k \<Rightarrow> lookup k cs)"

definition fs_exists :: "fsnode \<Rightarrow> path \<Rightarrow> bool" where
  "fs_exists root p = (lookup root p \<noteq> None)"

text \<open>
  Opening a path for writing and leaving the data in it: \<^verbatim>\<open>open(p, 'wb')\<close>
  followed by the writes, and \<^verbatim>\<open>Path.write_text\<close>. The parent must be an
  existing directory and the path must not be a directory.
\<close>

fun write_file :: "fsnode \<Rightarrow> path \<Rightarrow> fdata \<Rightarrow> exn + fsnode" where
  "write_file n [] d = Inl IsADirectoryError"
| "write_file (File nm x) (c # cs) d = Inl NotADirectoryError"
| "write_file (Dir nm ks) [c] d =
     (case find_child c ks of
        Some (Dir nm' ks') \<Rightarrow> Inl IsADirectoryError
      | _ \<Rightarrow> Inr (Dir nm (set_child (File c d) ks)))"
| "write_file (Dir nm ks) (c # c' # cs) d =
     (case find_child c ks of
        None \<Rightarrow> Inl FileNotFoundError
      | Some k \<Rightarrow>
          (case write_file k (c' # cs) d of
             Inl e \<Rightarrow> Inl e
           | Inr k' \<Rightarrow> Inr (Dir nm (set_child k' ks))))"

text \<open>
  \<^verbatim>\<open>Path.mkdir(exist_ok=True)\<close>, with \<^verbatim>\<open>parents=True\<close> when the flag is
  set: an existing directory is left alone, an existing file raises, a missing parent
  raises unless parents are created.
\<close>

fun mkdir :: "bool \<Rightarrow> fsnode \<Rightarrow> path \<Rightarrow> exn + fsnode" where
  "mkdir ps (Dir nm ks) [] = Inr (Dir nm ks)"
| "mkdir ps (File nm x) [] = Inl FileExistsError"
| "mkdir ps (File nm x) (c # cs) = Inl NotADirectoryError"
| "mkdir ps (Dir nm ks) (c # cs) =
     (case find_child c ks of
        Some k \<Rightarrow>
          (case mkdir ps k cs of
             Inl e \<Rightarrow> Inl e
           | Inr k' \<Rightarrow> Inr (Dir nm (set_child k' ks)))
      | None \<Rightarrow>
          if cs = [] \<or> ps then
            (case mkdir ps (Dir c []) cs of
               Inl e \<Rightarrow> Inl e
             | Inr k' \<Rightarrow> Inr (Dir nm (ks @ [k'])))
          else Inl FileNotFoundError)"

text \<open>
  \<^verbatim>\<open>ZipFile.extractall(p)\<close> with the members \<open>ms\<close> of the archive: the
  directory \<open>p\<close> is made with its parents and receives the members. An archive
  without members leaves the file system as it is.
\<close>

fun extractall :: "fsnode \<Rightarrow> path \<Rightarrow> fsnode list \<Rightarrow> exn + fsnode" where
  "extractall n p [] = Inr n"
| "extractall (Dir nm ks) [] ms = Inr (Dir nm (fold set_child ms ks))"
| "extractall (File nm x) [] ms = Inl FileExistsError"
| "extractall (File nm x) (c # cs) ms = Inl NotADirectoryError"
| "extractall (Dir nm ks) (c # cs) ms =
     (case find_child c ks of
        Some k \<Rightarrow>
          (case extractall k cs ms of
             Inl e \<Rightarrow> Inl e
           | Inr k' \<Rightarrow> Inr (Dir nm (set_child k' ks)))
      | None \<Rightarrow>
          (case extractall (Dir c []) cs ms of
             Inl e \<Rightarrow> Inl e
           | Inr k' \<Rightarrow> Inr (Dir nm (ks @ [k']))))"

text \<open>
  \<^verbatim>\<open>Path.rglob('*' + ext)\<close> below a node that sits at path \<open>p\<close>: every
  directory of the tree is visited, a directory before the directories inside it, and
  each visit yields the entries of that directory whose names match, files and
  directories alike. A path that is not a directory yields nothing.
\<close>

definition matches :: "string \<Rightarrow> path \<Rightarrow> fsnode list \<Rightarrow> path list" where
  "matches ext p ks = map (\<lambda>k. p @ [node_name k]) (filter (\<lambda>k. ends_with ext (node_name k)) ks)"

fun rglob :: "string \<Rightarrow> path \<Rightarrow> fsnode \<Rightarrow> path list"
  and rglob_kids :: "string \<Rightarrow> path \<Rightarrow> fsnode list \<Rightarrow> path list" where
  "rglob ext p (File nm d) = []"
| "rglob ext p (Dir nm ks) = matches ext p ks @ rglob_kids ext p ks"
| "rglob_kids ext p [] = []"
| "rglob_kids ext p (k # ks) = rglob ext (p @ [node_name k]) k @ rglob_kids ext p ks"

definition path_rglob :: "fsnode \<Rightarrow> path \<Rightarrow> string \<Rightarrow> path list" where
  "path_rglob root dir ext =
     (case lookup root dir of None \<Rightarrow> [] | Some n \<Rightarrow> rglob ext dir n)"

subsection \<open>The environment and the state\<close>

datatype content_length = CLAbsent | CLInt int | CLMalformed

text \<open>
  What \<^verbatim>\<open>requests.get\<close> meets: no connection, or a response with its status,
  its content-length header, the chunks the body delivers, and whether the stream breaks
  after them.
\<close>

datatype http_outcome = NoConnection | Response nat content_length "string list" bool

text \<open>
  What \<^verbatim>\<open>subprocess.run\<close> meets: the program ran and exited with a status, or it
  could not be started and the call raises the error of the operating system (a missing
  interpreter, a file that is not executable). The program reads the file system; the file a converter writes
  is not entered in the tree, since no step of the pipeline reads it.
\<close>

datatype proc_outcome = Exited nat | NotStarted exn

record env =
  http_get :: "string \<Rightarrow> http_outcome"
  unzip :: "fdata \<Rightarrow> fsnode list option"
  which :: "string \<Rightarrow> bool"
  run_proc :: "string list \<Rightarrow> fsnode \<Rightarrow> proc_outcome"

text \<open>
  The trace lists, oldest first, the calls that leave the process and the log lines that
  mark where a stage starts and how it ends. The other prints (banners, progress,
  counts) carry nothing beyond these and are not recorded.
\<close>

datatype event =
    HttpGet string
  | OpenWrite path
  | WriteChunk path string
  | ExtractAll path path
  | Mkdir path
  | Which string
  | SubprocessRun "string list"
  | WriteText path string
  | JsonDump path registry
  | LogAlreadyDownloaded path
  | LogAlreadyExtracted path
  | LogProcessing string
  | LogConverting string
  | LogConverted string
  | LogConvertedViaBlender string
  | LogNoConverter
  | LogProcessed nat
  | LogFailed string exn

record state =
  fs :: fsnode
  registry :: registry
  trace :: "event list"

definition emit :: "event list \<Rightarrow> state \<Rightarrow> state" where
  "emit es st = st\<lparr>trace := trace st @ es\<rparr>"

definition download_dir :: "path \<Rightarrow> path" where
  "download_dir base_dir = base_dir @ [''downloads'', ''usd'']"

definition output_dir :: "path \<Rightarrow> path" where
  "output_dir base_dir = base_dir @ [''public'', ''assets'']"

definition metadata_file :: "path \<Rightarrow> path" where
  "metadata_file base_dir = output_dir base_dir @ [''asset_registry.json'']"

text \<open>\<^verbatim>\<open>AssetPipeline.__init__\<close>: both directories are made, the registry is empty.\<close>

definition init :: "path \<Rightarrow> fsnode \<Rightarrow> exn + state" where
  "init base_dir root =
     (case mkdir True root (download_dir base_dir) of
        Inl e \<Rightarrow> Inl e
      | Inr root1 \<Rightarrow>
          (case mkdir True root1 (output_dir base_dir) of
             Inl e \<Rightarrow> Inl e
           | Inr root2 \<Rightarrow> Inr \<lparr>fs = root2, registry = [], trace = []\<rparr>))"

subsection \<open>Download\<close>

text \<open>\<^verbatim>\<open>Response.raise_for_status\<close> raises for the statuses 400 to 599.\<close>

definition raise_for_status :: "nat \<Rightarrow> bool" where
  "raise_for_status status = (400 \<le> status \<and> status < 600)"

definition zip_path :: "path \<Rightarrow> string \<Rightarrow> path" where
  "zip_path base_dir pack_id = download_dir base_dir @ [pack_id @ ''.zip'']"

definition download_asset_pack ::
    "env \<Rightarrow> path \<Rightarrow> string \<Rightarrow> config \<Rightarrow> state \<Rightarrow> (exn + path) \<times> state" where
  "download_asset_pack ev base_dir pack_id cfg st =
     (let zp = zip_path base_dir pack_id in
      if fs_exists (fs st) zp then (Inr zp, emit [LogAlreadyDownloaded zp] st)
      else
        let st1 = emit [HttpGet (url cfg)] st in
        case http_get ev (url cfg) of
          NoConnection \<Rightarrow> (Inl ConnectionError, st1)
        | Response status cl chunks broken \<Rightarrow>
            if raise_for_status status then (Inl (HTTPError status), st1)
            else if cl = CLMalformed then (Inl ValueError, st1)
            else
              let st2 = emit [OpenWrite zp] st1 in
              case write_file (fs st2) zp (Raw (concat chunks)) of
                Inl e \<Rightarrow> (Inl e, st2)
              | Inr root' \<Rightarrow>
                  let st3 = emit (map (WriteChunk zp) chunks) (st2\<lparr>fs := root'\<rparr>) in
                  if broken then (Inl ChunkedEncodingError, st3) else (Inr zp, st3))"

subsection \<open>Extraction and location\<close>

definition extract_dir :: "path \<Rightarrow> string \<Rightarrow> path" where
  "extract_dir base_dir pack_id = download_dir base_dir @ [pack_id]"

text \<open>
  \<^verbatim>\<open>extract_pack\<close>. Opening the archive raises when the path holds no file and
  when the file is no zip archive.
\<close>

definition extract_pack ::
    "env \<Rightarrow> path \<Rightarrow> path \<Rightarrow> string \<Rightarrow> state \<Rightarrow> (exn + path) \<times> state" where
  "extract_pack ev base_dir zp pack_id st =
     (let ed = extract_dir base_dir pack_id in
      if fs_exists (fs st) ed then (Inr ed, emit [LogAlreadyExtracted ed] st)
      else
        let st1 = emit [ExtractAll zp ed] st in
        case lookup (fs st1) zp of
          None \<Rightarrow> (Inl FileNotFoundError, st1)
        | Some (Dir nm ks) \<Rightarrow> (Inl IsADirectoryError, st1)
        | Some (File nm d) \<Rightarrow>
            (case unzip ev d of
               None \<Rightarrow> (Inl BadZipFile, st1)
             | Some ms \<Rightarrow>
                 (case extractall (fs st1) ed ms of
                    Inl e \<Rightarrow> (Inl e, st1)
                  | Inr root' \<Rightarrow> (Inr ed, st1\<lparr>fs := root'\<rparr>))))"

definition usd_extensions :: "string list" where
  "usd_extensions = [''.usd'', ''.usda'', ''.usdc'', ''.usdz'']"

text \<open>\<^verbatim>\<open>find_usd_files\<close>: one scan per extension, each appended to the list.\<close>

definition find_usd_files :: "fsnode \<Rightarrow> path \<Rightarrow> path list" where
  "find_usd_files root dir =
     foldl (\<lambda>usd_files ext. usd_files @ path_rglob root dir ext) [] usd_extensions"

subsection \<open>Conversion\<close>

definition script_path :: "path \<Rightarrow> path" where
  "script_path base_dir = download_dir base_dir @ [''convert.py'']"

text \<open>The text of the generated script; the line feed is character 10.\<close>

definition blender_script :: "path \<Rightarrow> path \<Rightarrow> string" where
  "blender_script usd_file output_path =
     [CHR 0x0A] @ ''import bpy'' @ [CHR 0x0A]
     @ ''bpy.ops.wm.usd_import(filepath='' @ [CHR 0x22] @ path_str usd_file @ [CHR 0x22] @ '')''
     @ [CHR 0x0A]
     @ ''bpy.ops.export_scene.gltf(filepath='' @ [CHR 0x22] @ path_str output_path @ [CHR 0x22]
     @ '', export_format='' @ [CHR 0x27] @ ''GLB'' @ [CHR 0x27] @ '')'' @ [CHR 0x0A]
     @ ''bpy.ops.wm.quit_blender()'' @ [CHR 0x0A]"

definition usd2gltf_argv :: "path \<Rightarrow> path \<Rightarrow> string list" where
  "usd2gltf_argv usd_file output_path =
     [''usd2gltf'', path_str usd_file, ''-o'', path_str output_path]"

definition blender_argv :: "path \<Rightarrow> string list" where
  "blender_argv base_dir = [''blender'', ''--background'', ''--python'', path_str (script_path base_dir)]"

text \<open>
  The second strategy of \<^verbatim>\<open>convert_usd_to_gltf\<close> and the lines after it. Only
  \<^verbatim>\<open>CalledProcessError\<close>, the non-zero exit, is caught; a script that cannot be
  written and a program that cannot be started raise out of the function.
\<close>

definition try_blender ::
    "env \<Rightarrow> path \<Rightarrow> path \<Rightarrow> path \<Rightarrow> state \<Rightarrow> (exn + bool) \<times> state" where
  "try_blender ev base_dir usd_file output_path st =
     (let st0 = emit [Which ''blender''] st in
      if which ev ''blender'' then
        let st1 = emit [WriteText (script_path base_dir) (blender_script usd_file output_path)] st0 in
        case write_file (fs st1) (script_path base_dir) (Raw (blender_script usd_file output_path)) of
          Inl e \<Rightarrow> (Inl e, st1)
        | Inr root' \<Rightarrow>
            let st2 = emit [SubprocessRun (blender_argv base_dir)] (st1\<lparr>fs := root'\<rparr>) in
            (case run_proc ev (blender_argv base_dir) (fs st2) of
               NotStarted e \<Rightarrow> (Inl e, st2)
             | Exited status \<Rightarrow>
                 if status = 0 then
                   (Inr True, emit [LogConvertedViaBlender (path_name output_path)] st2)
                 else (Inr False, emit [LogNoConverter] st2))
      else (Inr False, emit [LogNoConverter] st0))"

definition convert_usd_to_gltf ::
    "env \<Rightarrow> path \<Rightarrow> path \<Rightarrow> path \<Rightarrow> state \<Rightarrow> (exn + bool) \<times> state" where
  "convert_usd_to_gltf ev base_dir usd_file output_path st =
     (let st0 = emit [LogConverting (path_name usd_file), Which ''usd2gltf''] st in
      if which ev ''usd2gltf'' then
        let st1 = emit [SubprocessRun (usd2gltf_argv usd_file output_path)] st0 in
        case run_proc ev (usd2gltf_argv usd_file output_path) (fs st1) of
          NotStarted e \<Rightarrow> (Inl e, st1)
        | Exited status \<Rightarrow>
            if status = 0 then (Inr True, emit [LogConverted (path_name output_path)] st1)
            else try_blender ev base_dir usd_file output_path st1
      else try_blender ev base_dir usd_file output_path st0)"

subsection \<open>Processing one pack\<close>

definition asset_metadata :: "string \<Rightarrow> config \<Rightarrow> string \<Rightarrow> asset" where
  "asset_metadata pack_id cfg nm =
     \<lparr>asset_id = pack_id @ ''_'' @ nm,
      asset_name = display_name nm,
      asset_path = ''/assets/'' @ category cfg @ ''/'' @ nm @ ''.glb'',
      asset_category = category cfg,
      physics_enabled = physics cfg,
      asset_source = ''NVIDIA Omniverse'',
      thumbnail = ''/assets/'' @ category cfg @ ''/'' @ nm @ ''_thumb.jpg''\<rparr>"

definition gltf_output :: "path \<Rightarrow> config \<Rightarrow> path \<Rightarrow> path" where
  "gltf_output base_dir cfg usd_file = output_dir base_dir @ [category cfg, stem usd_file @ ''.glb'']"

text \<open>
  The body of the loop of \<^verbatim>\<open>process_asset_pack\<close> over the files it is given;
  \<open>acc\<close> is \<^verbatim>\<open>converted_assets\<close>.
\<close>

fun convert_loop ::
    "env \<Rightarrow> path \<Rightarrow> string \<Rightarrow> config \<Rightarrow> path list \<Rightarrow> asset list \<Rightarrow> state
       \<Rightarrow> (exn + asset list) \<times> state" where
  "convert_loop ev base_dir pack_id cfg [] acc st = (Inr acc, st)"
| "convert_loop ev base_dir pack_id cfg (usd_file # rest) acc st =
     (case convert_usd_to_gltf ev base_dir usd_file (gltf_output base_dir cfg usd_file) st of
        (Inl e, st1) \<Rightarrow> (Inl e, st1)
      | (Inr ok, st1) \<Rightarrow>
          convert_loop ev base_dir pack_id cfg rest
            (if ok then acc @ [asset_metadata pack_id cfg (stem usd_file)] else acc) st1)"

text \<open>
  The registry update that ends \<^verbatim>\<open>process_asset_pack\<close>: a new category gets an
  empty list as the last key of the dictionary, then the list of the category is extended.
\<close>

definition registry_keys :: "registry \<Rightarrow> string list" where
  "registry_keys reg = map fst reg"

fun extend_at :: "string \<Rightarrow> asset list \<Rightarrow> registry \<Rightarrow> registry" where
  "extend_at c xs [] = []"
| "extend_at c xs ((k, v) # reg) =
     (if k = c then (k, v @ xs) # reg else (k, v) # extend_at c xs reg)"

definition update_registry :: "string \<Rightarrow> asset list \<Rightarrow> registry \<Rightarrow> registry" where
  "update_registry c xs reg =
     extend_at c xs (if c \<notin> set (registry_keys reg) then reg @ [(c, [])] else reg)"

text \<open>
  \<^verbatim>\<open>process_asset_pack\<close> in two parts. The first part runs up to the creation of
  the category directory and yields the files the scan has found.
\<close>

definition locate_pack ::
    "env \<Rightarrow> path \<Rightarrow> string \<Rightarrow> config \<Rightarrow> state \<Rightarrow> (exn + path list) \<times> state" where
  "locate_pack ev base_dir pack_id cfg st =
     (case download_asset_pack ev base_dir pack_id cfg (emit [LogProcessing pack_id] st) of
        (Inl e, st1) \<Rightarrow> (Inl e, st1)
      | (Inr zp, st1) \<Rightarrow>
          (case extract_pack ev base_dir zp pack_id st1 of
             (Inl e, st2) \<Rightarrow> (Inl e, st2)
           | (Inr ed, st2) \<Rightarrow>
               let usd_files = find_usd_files (fs st2) ed;
                   category_dir = output_dir base_dir @ [category cfg];
                   st3 = emit [Mkdir category_dir] st2
               in case mkdir False (fs st3) category_dir of
                    Inl e \<Rightarrow> (Inl e, st3)
                  | Inr root' \<Rightarrow> (Inr usd_files, st3\<lparr>fs := root'\<rparr>)))"

text \<open>The second part: the loop over the first ten files and the registry update.\<close>

definition catalog_pack ::
    "env \<Rightarrow> path \<Rightarrow> string \<Rightarrow> config \<Rightarrow> path list \<Rightarrow> state \<Rightarrow> (exn + unit) \<times> state" where
  "catalog_pack ev base_dir pack_id cfg usd_files st =
     (case convert_loop ev base_dir pack_id cfg (take 10 usd_files) [] st of
        (Inl e, st1) \<Rightarrow> (Inl e, st1)
      | (Inr converted_assets, st1) \<Rightarrow>
          (Inr (),
           emit [LogProcessed (length converted_assets)]
             (st1\<lparr>registry :=
                    update_registry (category cfg) converted_assets (registry st1)\<rparr>)))"

definition process_asset_pack ::
    "env \<Rightarrow> path \<Rightarrow> string \<Rightarrow> config \<Rightarrow> state \<Rightarrow> (exn + unit) \<times> state" where
  "process_asset_pack ev base_dir pack_id cfg st =
     (case locate_pack ev base_dir pack_id cfg st of
        (Inl e, st1) \<Rightarrow> (Inl e, st1)
      | (Inr usd_files, st1) \<Rightarrow> catalog_pack ev base_dir pack_id cfg usd_files st1)"

subsection \<open>The run\<close>

definition save_registry :: "path \<Rightarrow> state \<Rightarrow> (exn + unit) \<times> state" where
  "save_registry base_dir st =
     (let st1 = emit [JsonDump (metadata_file base_dir) (registry st)] st in
      case write_file (fs st1) (metadata_file base_dir) (RegistryJson (registry st1)) of
        Inl e \<Rightarrow> (Inl e, st1)
      | Inr root' \<Rightarrow> (Inr (), st1\<lparr>fs := root'\<rparr>))"

text \<open>The loop of \<^verbatim>\<open>run\<close>: an exception of a pack is caught, logged and dropped.\<close>

fun run_loop :: "env \<Rightarrow> path \<Rightarrow> (string \<times> config) list \<Rightarrow> state \<Rightarrow> state" where
  "run_loop ev base_dir [] st = st"
| "run_loop ev base_dir ((pack_id, cfg) # packs) st =
     (case process_asset_pack ev base_dir pack_id cfg st of
        (Inl e, st1) \<Rightarrow> run_loop ev base_dir packs (emit [LogFailed pack_id e] st1)
      | (Inr u, st1) \<Rightarrow> run_loop ev base_dir packs st1)"

definition run_packs ::
    "env \<Rightarrow> path \<Rightarrow> (string \<times> config) list \<Rightarrow> state \<Rightarrow> (exn + unit) \<times> state" where
  "run_packs ev base_dir packs st = save_registry base_dir (run_loop ev base_dir packs st)"

definition run :: "env \<Rightarrow> path \<Rightarrow> state \<Rightarrow> (exn + unit) \<times> state" where
  "run ev base_dir st = run_packs ev base_dir NVIDIA_ASSETS st"

subsection \<open>Observations\<close>

text \<open>The entries of a category, empty for a category that is no key of the registry.\<close>

definition entries :: "registry \<Rightarrow> string \<Rightarrow> asset list" where
  "entries reg c = (case map_of reg c of None \<Rightarrow> [] | Some v \<Rightarrow> v)"

text \<open>The events that a step from \<open>st\<close> to \<open>st'\<close> has added to the trace.\<close>

definition new_events :: "state \<Rightarrow> state \<Rightarrow> event list" where
  "new_events st st' = drop (length (trace st)) (trace st')"

fun is_write_text :: "event \<Rightarrow> bool" where
  "is_write_text (WriteText p s) = True"
| "is_write_text e = False"

fun is_processing :: "event \<Rightarrow> bool" where
  "is_processing (LogProcessing pack_id) = True"
| "is_processing e = False"

fun is_save :: "event \<Rightarrow> bool" where
  "is_save (JsonDump p reg) = True"
| "is_save e = False"

fun is_converting :: "event \<Rightarrow> bool" where
  "is_converting (LogConverting nm) = True"
| "is_converting e = False"

text \<open>
  The results of the conversions of a list of files, one after the other from a state,
  up to and with the first that raises.
\<close>

fun conversion_outcomes :: "env \<Rightarrow> path \<Rightarrow> config \<Rightarrow> path list \<Rightarrow> state \<Rightarrow> (exn + bool) list" where
  "conversion_outcomes ev base_dir cfg [] st = []"
| "conversion_outcomes ev base_dir cfg (usd_file # rest) st =
     (case convert_usd_to_gltf ev base_dir usd_file (gltf_output base_dir cfg usd_file) st of
        (Inl e, st1) \<Rightarrow> [Inl e]
      | (Inr ok, st1) \<Rightarrow> Inr ok # conversion_outcomes ev base_dir cfg rest st1)"

text \<open>The files of a list whose flag is set.\<close>

definition selected :: "'a list \<Rightarrow> bool list \<Rightarrow> 'a list" where
  "selected xs oks = map fst (filter snd (zip xs oks))"

subsection \<open>The locator as the specification words it\<close>

text \<open>
  The specification has one recursive scan that lists the files with a recognised
  extension in the order of the traversal. \<open>rfiles\<close> is that scan over the regular
  files, in the order in which \<open>rglob\<close> visits them.
\<close>

definition is_usd_name :: "string \<Rightarrow> bool" where
  "is_usd_name nm = list_ex (\<lambda>ext. ends_with ext nm) usd_extensions"

fun rfiles :: "path \<Rightarrow> fsnode \<Rightarrow> path list"
  and rfiles_kids :: "path \<Rightarrow> fsnode list \<Rightarrow> path list" where
  "rfiles p (File nm d) = []"
| "rfiles p (Dir nm ks) =
     map (\<lambda>k. p @ [node_name k]) (filter (\<lambda>k. \<not> is_dir k) ks) @ rfiles_kids p ks"
| "rfiles_kids p [] = []"
| "rfiles_kids p (k # ks) = rfiles (p @ [node_name k]) k @ rfiles_kids p ks"

definition all_files :: "fsnode \<Rightarrow> path \<Rightarrow> path list" where
  "all_files root dir = (case lookup root dir of None \<Rightarrow> [] | Some n \<Rightarrow> rfiles dir n)"

definition locate_spec :: "fsnode \<Rightarrow> path \<Rightarrow> path list" where
  "locate_spec root dir = filter (\<lambda>p. is_usd_name (path_name p)) (all_files root dir)"

text \<open>No directory below the node carries a name with a recognised extension.\<close>

fun usd_dir_free :: "fsnode \<Rightarrow> bool"
  and usd_dir_free_kids :: "fsnode list \<Rightarrow> bool" where
  "usd_dir_free (File nm d) = True"
| "usd_dir_free (Dir nm ks) = usd_dir_free_kids ks"
| "usd_dir_free_kids [] = True"
| "usd_dir_free_kids (k # ks) =
     ((is_dir k \<longrightarrow> \<not> is_usd_name (node_name k)) \<and> usd_dir_free k \<and> usd_dir_free_kids ks)"

definition usd_dirs_free_below :: "fsnode \<Rightarrow> path \<Rightarrow> bool" where
  "usd_dirs_free_below root dir =
     (case lookup root dir of None \<Rightarrow> True | Some n \<Rightarrow> usd_dir_free n)"

subsection \<open>Example worlds\<close>

text \<open>
  A base directory \<open>/work\<close> as \<^verbatim>\<open>__init__\<close> leaves it, with the given entries in
  the download directory.
\<close>

definition ex_base :: path where
  "ex_base = [''work'']"

definition ex_tree :: "fsnode list \<Rightarrow> fsnode" where
  "ex_tree ks =
     Dir [] [Dir ''work'' [Dir ''downloads'' [Dir ''usd'' ks], Dir ''public'' [Dir ''assets'' []]]]"

definition ex_state :: "fsnode list \<Rightarrow> state" where
  "ex_state ks = \<lparr>fs = ex_tree ks, registry = [], trace = []\<rparr>"

definition ex_cfg :: config where
  "ex_cfg = \<lparr>url = ''https://example.org/p1.zip'', category = ''warehouse'', physics = True,
             description = ''Two props''\<rparr>"

definition ex_a :: path where
  "ex_a = [''work'', ''downloads'', ''usd'', ''p1'', ''a.usd'']"

definition ex_a_out :: path where
  "ex_a_out = [''work'', ''public'', ''assets'', ''warehouse'', ''a.glb'']"

definition ex_b :: path where
  "ex_b = [''work'', ''downloads'', ''usd'', ''p1'', ''b.usd'']"

definition ex_b_out :: path where
  "ex_b_out = [''work'', ''public'', ''assets'', ''warehouse'', ''b.glb'']"

text \<open>
  An environment: the server, and whether each converter is installed. The
  archive \<open>PK\<close> holds \<open>a.usd\<close> and \<open>b.usd\<close>; either converter exits with 0 on
  \<open>a.usd\<close> and with 1 on any other file.
\<close>

definition ex_env :: "(string \<Rightarrow> http_outcome) \<Rightarrow> bool \<Rightarrow> bool \<Rightarrow> env" where
  "ex_env server has_usd2gltf has_blender =
     \<lparr>http_get = server,
      unzip = (\<lambda>d. if d = Raw ''PK''
                    then Some [File ''a.usd'' (Raw []), File ''b.usd'' (Raw [])] else None),
      which = (\<lambda>tool. if tool = ''usd2gltf'' then has_usd2gltf
                       else if tool = ''blender'' then has_blender else False),
      run_proc = (\<lambda>argv root.
         if argv = usd2gltf_argv ex_a ex_a_out then Exited 0
         else if argv = blender_argv ex_base
                 \<and> lookup root (script_path ex_base)
                     = Some (File ''convert.py'' (Raw (blender_script ex_a ex_a_out)))
         then Exited 0
         else Exited 1)\<rparr>"

definition offline :: "string \<Rightarrow> http_outcome" where
  "offline u = NoConnection"

text \<open>A server that has the archive of \<open>ex_cfg\<close> and cannot be reached for any other.\<close>

definition ex_server :: "string \<Rightarrow> http_outcome" where
  "ex_server u =
     (if u = ''https://example.org/p1.zip'' then Response 200 (CLInt 2) [''PK''] False
      else NoConnection)"


text \<open>
  A pack that is downloaded and extracted already, with eleven scene files, and an
  environment in which usd2gltf converts every file.
\<close>

definition ex11_files :: "fsnode list" where
  "ex11_files =
     map (\<lambda>nm. File (nm @ ''.usd'') (Raw []))
       [''f01'', ''f02'', ''f03'', ''f04'', ''f05'', ''f06'', ''f07'', ''f08'', ''f09'', ''f10'',
        ''f11'']"

definition ex11_state :: state where
  "ex11_state = ex_state [File ''p1.zip'' (Raw ''PK''), Dir ''p1'' ex11_files]"

definition ex_env_ok :: env where
  "ex_env_ok =
     \<lparr>http_get = offline, unzip = (\<lambda>d. None), which = (\<lambda>tool. tool = ''usd2gltf''),
      run_proc = (\<lambda>argv root. Exited 0)\<rparr>"

definition ex11_paths :: "path list" where
  "ex11_paths =
     map (\<lambda>nm. [''work'', ''downloads'', ''usd'', ''p1'', nm @ ''.usd''])
       [''f01'', ''f02'', ''f03'', ''f04'', ''f05'', ''f06'', ''f07'', ''f08'', ''f09'', ''f10'',
        ''f11'']"

text \<open>
  The state in which the scan of the pack \<open>p1\<close> of \<open>ex_server\<close> has found
  \<open>a.usd\<close> and \<open>b.usd\<close>.
\<close>

definition ex_located :: state where
  "ex_located =
     \<lparr>fs = Dir [] [Dir ''work''
             [Dir ''downloads''
               [Dir ''usd''
                 [File ''p1.zip'' (Raw ''PK''),
                  Dir ''p1'' [File ''a.usd'' (Raw []), File ''b.usd'' (Raw [])]]],
              Dir ''public'' [Dir ''assets'' [Dir ''warehouse'' []]]]],
      registry = [],
      trace = [LogProcessing ''p1'', HttpGet ''https://example.org/p1.zip'',
               OpenWrite [''work'', ''downloads'', ''usd'', ''p1.zip''],
               WriteChunk [''work'', ''downloads'', ''usd'', ''p1.zip''] ''PK'',
               ExtractAll [''work'', ''downloads'', ''usd'', ''p1.zip'']
                 [''work'', ''downloads'', ''usd'', ''p1''],
               Mkdir [''work'', ''public'', ''assets'', ''warehouse'']]\<rparr>"

text \<open>
  A state with the archive of \<open>p1\<close> in place, a directory where the Blender script
  goes, and one asset in the registry.
\<close>

definition ex8_state :: state where
  "ex8_state =
     (ex_state [File ''p1.zip'' (Raw ''PK''), Dir ''convert.py'' []])
       \<lparr>registry := [(''warehouse'', [asset_metadata ''p0'' ex_cfg ''z''])]\<rparr>"

text \<open>
  An environment with both converters installed in which usd2gltf cannot be started, its
  interpreter missing, and Blender converts every file.
\<close>

definition ex_env_unstartable :: env where
  "ex_env_unstartable =
     \<lparr>http_get = offline, unzip = (\<lambda>d. None),
      which = (\<lambda>tool. tool = ''usd2gltf'' \<or> tool = ''blender''),
      run_proc = (\<lambda>argv root.
         case argv of
           [] \<Rightarrow> Exited 0
         | prog # args \<Rightarrow>
             if prog = ''usd2gltf'' then NotStarted FileNotFoundError else Exited 0)\<rparr>"

text \<open>
  A pack that is downloaded and extracted already, with one scene file, on a disk where
  the path of the category directory is taken by a regular file.
\<close>

definition ex_blocked_state :: state where
  "ex_blocked_state =
     \<lparr>fs = Dir [] [Dir ''work''
             [Dir ''downloads''
               [Dir ''usd''
                 [File ''p1.zip'' (Raw ''PK''), Dir ''p1'' [File ''a.usd'' (Raw [])]]],
              Dir ''public'' [Dir ''assets'' [File ''warehouse'' (Raw [])]]]],
      registry = [], trace = []\<rparr>"

text \<open>A tree with a \<open>.usda\<close> file listed before a \<open>.usd\<close> file.\<close>

definition ex7_root :: fsnode where
  "ex7_root = Dir [] [Dir ''pack'' [File ''b.usda'' (Raw []), File ''c.usd'' (Raw [])]]"

section \<open>Properties\<close>

subsection \<open>The file system\<close>

lemma find_child_set_child: "find_child (node_name k) (set_child k ks) = Some k"
  by (induction ks) auto

lemma find_child_name: "find_child c ks = Some k \<Longrightarrow> node_name k = c"
  by (induction ks) (auto split: if_splits)

lemma write_file_name: "write_file n p d = Inr n' \<Longrightarrow> node_name n' = node_name n"
  by (induction n p d arbitrary: n' rule: write_file.induct)
     (auto split: option.splits fsnode.splits sum.splits)

text \<open>A write that succeeds leaves a file with exactly the data at the path.\<close>

lemma lookup_write_file:
  "write_file n p d = Inr n' \<Longrightarrow> lookup n' p = Some (File (last p) d)"
proof (induction n p d arbitrary: n' rule: write_file.induct)
  case (3 nm ks c d)
  then have "n' = Dir nm (set_child (File c d) ks)"
    by (auto split: option.splits fsnode.splits)
  moreover have "find_child c (set_child (File c d) ks) = Some (File c d)"
    using find_child_set_child [of "File c d" ks] by simp
  ultimately show ?case by simp
next
  case (4 nm ks c c' cs d)
  then obtain k k' where k: "find_child c ks = Some k"
    and w: "write_file k (c' # cs) d = Inr k'" and n': "n' = Dir nm (set_child k' ks)"
    by (auto split: option.splits sum.splits)
  have "node_name k' = c"
    using write_file_name [OF w] find_child_name [OF k] by simp
  then have "find_child c (set_child k' ks) = Some k'"
    using find_child_set_child [of k' ks] by simp
  moreover have "lookup k' (c' # cs) = Some (File (last (c' # cs)) d)"
    using "4.IH" [OF k w] .
  ultimately show ?case using n' by simp
qed simp_all

text \<open>The example worlds start where \<^verbatim>\<open>__init__\<close> leaves an empty disk.\<close>

lemma ex_init: "init ex_base (Dir [] []) = Inr (ex_state [])"
  by (simp add: init_def ex_base_def download_dir_def output_dir_def ex_state_def ex_tree_def)

subsection \<open>The registry\<close>

lemma map_of_extend_at_same:
  "map_of (extend_at c xs reg) c = map_option (\<lambda>v. v @ xs) (map_of reg c)"
  by (induction reg) auto

lemma map_of_extend_at_other:
  "c' \<noteq> c \<Longrightarrow> map_of (extend_at c xs reg) c' = map_of reg c'"
  by (induction reg) auto

lemma map_of_snoc_fresh:
  "c \<notin> set (map fst reg) \<Longrightarrow>
   map_of (reg @ [(c, v)]) c' = (if c' = c then Some v else map_of reg c')"
  by (induction reg) (auto simp del: map_of_append)

lemma entries_update_same:
  "entries (update_registry c xs reg) c = entries reg c @ xs"
proof (cases "c \<in> set (registry_keys reg)")
  case True
  then obtain v where "map_of reg c = Some v"
    by (cases "map_of reg c") (auto simp: registry_keys_def map_of_eq_None_iff)
  then show ?thesis using True
    by (simp add: entries_def update_registry_def map_of_extend_at_same)
next
  case False
  then have "map_of reg c = None"
    by (simp add: registry_keys_def map_of_eq_None_iff)
  then show ?thesis using False
    by (simp add: entries_def update_registry_def map_of_extend_at_same map_of_snoc_fresh
          registry_keys_def del: map_of_append)
qed

lemma map_of_update_other:
  "c' \<noteq> c \<Longrightarrow> map_of (update_registry c xs reg) c' = map_of reg c'"
  by (simp add: update_registry_def map_of_extend_at_other map_of_snoc_fresh registry_keys_def
        del: map_of_append)

text \<open>
  C4. Registry append-only: recording the assets \<open>xs\<close> under a category puts them,
  in their order, behind the entries the category had, which stay as they were; the
  length of the category grows by the number of assets recorded; every other category
  keeps its sequence.
\<close>

theorem registry_append_only:
  "entries (update_registry c xs reg) c = entries reg c @ xs
   \<and> length (entries (update_registry c xs reg) c) = length (entries reg c) + length xs
   \<and> (\<forall>c'. c' \<noteq> c \<longrightarrow> map_of (update_registry c xs reg) c' = map_of reg c')"
  by (simp add: entries_update_same map_of_update_other)

theorem registry_append_only_witness:
  "''furniture'' \<noteq> ''warehouse''
   \<and> entries (update_registry ''warehouse'' [asset_metadata ''p1'' ex_cfg ''b'']
               [(''warehouse'', [asset_metadata ''p1'' ex_cfg ''a'']), (''furniture'', [])])
        ''warehouse''
      = [asset_metadata ''p1'' ex_cfg ''a'', asset_metadata ''p1'' ex_cfg ''b'']
   \<and> map_of (update_registry ''warehouse'' [asset_metadata ''p1'' ex_cfg ''b'']
               [(''warehouse'', [asset_metadata ''p1'' ex_cfg ''a'']), (''furniture'', [])])
        ''furniture''
      = Some []"
  using registry_append_only [of "''warehouse''" "[asset_metadata ''p1'' ex_cfg ''b'']"
      "[(''warehouse'', [asset_metadata ''p1'' ex_cfg ''a'']), (''furniture'', [])]"]
  by (simp add: entries_def)

subsection \<open>Download\<close>

text \<open>
  C5. Idempotent download: when the archive of a pack already exists at
  \<open>{downloadRoot}/{pack.id}.zip\<close>, the download returns that path, issues no network
  call and writes nothing: the file system and the registry are unchanged and the only
  event is the log line that reports the existing archive.
\<close>

theorem download_idempotent:
  assumes "fs_exists (fs st) (zip_path base_dir pack_id)"
  shows "download_asset_pack ev base_dir pack_id cfg st =
           (Inr (zip_path base_dir pack_id),
            st\<lparr>trace := trace st @ [LogAlreadyDownloaded (zip_path base_dir pack_id)]\<rparr>)"
  using assms by (simp add: download_asset_pack_def emit_def Let_def)

theorem download_idempotent_witness:
  "fs_exists (fs (ex_state [File ''p1.zip'' (Raw ''PK'')])) (zip_path ex_base ''p1'')
   \<and> download_asset_pack (ex_env offline False False) ex_base ''p1'' ex_cfg
        (ex_state [File ''p1.zip'' (Raw ''PK'')])
      = (Inr [''work'', ''downloads'', ''usd'', ''p1.zip''],
         \<lparr>fs = ex_tree [File ''p1.zip'' (Raw ''PK'')], registry = [],
          trace = [LogAlreadyDownloaded [''work'', ''downloads'', ''usd'', ''p1.zip'']]\<rparr>)"
proof -
  have h: "fs_exists (fs (ex_state [File ''p1.zip'' (Raw ''PK'')])) (zip_path ex_base ''p1'')"
    by (simp add: fs_exists_def ex_state_def ex_tree_def zip_path_def download_dir_def ex_base_def)
  show ?thesis
    using h download_idempotent [OF h, of "ex_env offline False False" ex_cfg]
    by (simp add: ex_state_def zip_path_def download_dir_def ex_base_def)
qed

text \<open>
  C9, as the code has it. For a pack whose archive does not exist yet: when the GET
  returns a status from 400 to 599, the download raises the HTTP error right after the
  request, with the file system untouched, so no file is at the archive path. And when the
  download raises and yet a file is at the archive path afterwards, the status was not
  one of those, the stream broke after the file was opened, and the file holds the chunks
  that had arrived.
\<close>

theorem download_status_failure:
  assumes "\<not> fs_exists (fs st) (zip_path base_dir pack_id)"
  shows "(\<forall>status cl chunks broken.
            http_get ev (url cfg) = Response status cl chunks broken
              \<and> 400 \<le> status \<and> status < 600 \<longrightarrow>
            download_asset_pack ev base_dir pack_id cfg st =
              (Inl (HTTPError status), st\<lparr>trace := trace st @ [HttpGet (url cfg)]\<rparr>))
       \<and> (\<forall>e st'. download_asset_pack ev base_dir pack_id cfg st = (Inl e, st')
             \<and> fs_exists (fs st') (zip_path base_dir pack_id) \<longrightarrow>
            (\<exists>status cl chunks. http_get ev (url cfg) = Response status cl chunks True
               \<and> \<not> (400 \<le> status \<and> status < 600) \<and> e = ChunkedEncodingError
               \<and> lookup (fs st') (zip_path base_dir pack_id)
                   = Some (File (pack_id @ ''.zip'') (Raw (concat chunks)))))"
  using assms
  by (auto simp: download_asset_pack_def Let_def emit_def raise_for_status_def zip_path_def
        dest: lookup_write_file
        split: http_outcome.splits if_splits sum.splits)

theorem download_status_failure_witness:
  "\<not> fs_exists (fs (ex_state [])) (zip_path ex_base ''p1'')
   \<and> http_get (ex_env (\<lambda>u. Response 404 CLAbsent [] False) False False) (url ex_cfg)
       = Response 404 CLAbsent [] False
   \<and> download_asset_pack (ex_env (\<lambda>u. Response 404 CLAbsent [] False) False False) ex_base ''p1''
        ex_cfg (ex_state [])
      = (Inl (HTTPError 404),
         \<lparr>fs = ex_tree [], registry = [], trace = [HttpGet ''https://example.org/p1.zip'']\<rparr>)"
proof -
  have h: "\<not> fs_exists (fs (ex_state [])) (zip_path ex_base ''p1'')"
    by (simp add: fs_exists_def ex_state_def ex_tree_def zip_path_def download_dir_def ex_base_def)
  have g: "http_get (ex_env (\<lambda>u. Response 404 CLAbsent [] False) False False) (url ex_cfg)
       = Response 404 CLAbsent [] False"
    by (simp add: ex_env_def offline_def)
  have d: "download_asset_pack (ex_env (\<lambda>u. Response 404 CLAbsent [] False) False False) ex_base ''p1''
        ex_cfg (ex_state [])
      = (Inl (HTTPError 404), (ex_state [])\<lparr>trace := trace (ex_state []) @ [HttpGet (url ex_cfg)]\<rparr>)"
    using g download_status_failure [OF h, of "ex_env (\<lambda>u. Response 404 CLAbsent [] False) False False"
        ex_cfg, THEN conjunct1, rule_format, of 404 CLAbsent "[]" False]
    by simp
  show ?thesis
    using h g d by (simp add: ex_state_def ex_cfg_def)
qed

text \<open>
  The claim C9 as it is stated fails for a status that is neither 2xx nor an error
  status: on a final answer 300 the download does not raise and leaves the body at the
  archive path.
\<close>

theorem download_non2xx_counterexample:
  "\<not> fs_exists (fs (ex_state [])) (zip_path ex_base ''p1'')
   \<and> http_get (ex_env (\<lambda>u. Response 300 CLAbsent [''choices''] False) False False) (url ex_cfg)
       = Response 300 CLAbsent [''choices''] False
   \<and> \<not> (200 \<le> (300::nat) \<and> (300::nat) < 300)
   \<and> fst (download_asset_pack (ex_env (\<lambda>u. Response 300 CLAbsent [''choices''] False) False False)
            ex_base ''p1'' ex_cfg (ex_state []))
       = Inr (zip_path ex_base ''p1'')
   \<and> lookup (fs (snd (download_asset_pack
                         (ex_env (\<lambda>u. Response 300 CLAbsent [''choices''] False) False False)
                         ex_base ''p1'' ex_cfg (ex_state []))))
        (zip_path ex_base ''p1'')
       = Some (File ''p1.zip'' (Raw ''choices''))"
  by (simp add: fs_exists_def ex_state_def ex_tree_def zip_path_def download_dir_def ex_base_def
        ex_env_def download_asset_pack_def Let_def emit_def raise_for_status_def)

subsection \<open>Conversion\<close>

text \<open>
  C2, as the code has it. Converter fallback order, where a strategy fails by exiting
  with a non-zero status. (1) When usd2gltf is installed and exits with status 0, the
  conversion returns true and its only effects are the probe for usd2gltf, the one
  subprocess and two log lines: Blender is neither probed nor run. (2) When usd2gltf is
  not installed or exits with a non-zero status, and Blender is installed, the conversion
  writes the Blender script and, the script written, runs Blender before it returns.
  (3) When each strategy is either not installed or exits with a non-zero status, the
  script of Blender written, the conversion returns false and raises nothing.
\<close>

theorem converter_fallback_order:
  "(which ev ''usd2gltf'' \<and> run_proc ev (usd2gltf_argv usd_file output_path) (fs st) = Exited 0 \<longrightarrow>
      convert_usd_to_gltf ev base_dir usd_file output_path st
        = (Inr True,
           st\<lparr>trace := trace st @
                 [LogConverting (path_name usd_file), Which ''usd2gltf'',
                  SubprocessRun (usd2gltf_argv usd_file output_path),
                  LogConverted (path_name output_path)]\<rparr>))
   \<and> ((\<not> which ev ''usd2gltf''
        \<or> (\<exists>n. n \<noteq> 0 \<and> run_proc ev (usd2gltf_argv usd_file output_path) (fs st) = Exited n))
       \<and> which ev ''blender'' \<longrightarrow>
      WriteText (script_path base_dir) (blender_script usd_file output_path)
        \<in> set (new_events st (snd (convert_usd_to_gltf ev base_dir usd_file output_path st)))
      \<and> (\<forall>root'. write_file (fs st) (script_path base_dir)
                    (Raw (blender_script usd_file output_path)) = Inr root' \<longrightarrow>
           SubprocessRun (blender_argv base_dir)
             \<in> set (new_events st (snd (convert_usd_to_gltf ev base_dir usd_file output_path st)))))
   \<and> ((\<not> which ev ''usd2gltf''
        \<or> (\<exists>n. n \<noteq> 0 \<and> run_proc ev (usd2gltf_argv usd_file output_path) (fs st) = Exited n))
       \<and> (\<not> which ev ''blender''
           \<or> (\<exists>root' m. write_file (fs st) (script_path base_dir)
                          (Raw (blender_script usd_file output_path)) = Inr root'
                \<and> m \<noteq> 0 \<and> run_proc ev (blender_argv base_dir) root' = Exited m)) \<longrightarrow>
      fst (convert_usd_to_gltf ev base_dir usd_file output_path st) = Inr False)"
  by (auto simp: convert_usd_to_gltf_def try_blender_def Let_def emit_def new_events_def
        split: sum.splits proc_outcome.splits)

lemma ex_usd2gltf_a:
  "run_proc (ex_env offline True True) (usd2gltf_argv ex_a ex_a_out) (fs (ex_state []))
     = Exited 0"
  by (simp add: ex_env_def offline_def)

lemma ex_usd2gltf_b:
  "run_proc (ex_env offline True True) (usd2gltf_argv ex_b ex_b_out) (fs (ex_state []))
     = Exited 1"
  by (simp add: ex_env_def usd2gltf_argv_def blender_argv_def ex_a_def ex_b_def path_str_def)

lemma ex_write_script:
  "write_file (fs (ex_state [])) (script_path ex_base) (Raw s)
     = Inr (ex_tree [File ''convert.py'' (Raw s)])"
  by (simp add: ex_state_def ex_tree_def script_path_def download_dir_def ex_base_def)

lemma ex_blender_b:
  "run_proc (ex_env offline True True) (blender_argv ex_base)
     (ex_tree [File ''convert.py'' (Raw (blender_script ex_b ex_b_out))]) = Exited 1"
  by (simp add: ex_env_def usd2gltf_argv_def blender_argv_def ex_tree_def script_path_def
        download_dir_def ex_base_def blender_script_def ex_a_def ex_b_def path_str_def)

theorem converter_fallback_order_witness:
  "which (ex_env offline True True) ''usd2gltf''
   \<and> run_proc (ex_env offline True True) (usd2gltf_argv ex_a ex_a_out) (fs (ex_state []))
       = Exited 0
   \<and> convert_usd_to_gltf (ex_env offline True True) ex_base ex_a ex_a_out (ex_state [])
       = (Inr True,
          (ex_state [])\<lparr>trace := trace (ex_state []) @
             [LogConverting (path_name ex_a), Which ''usd2gltf'',
              SubprocessRun (usd2gltf_argv ex_a ex_a_out), LogConverted (path_name ex_a_out)]\<rparr>)
   \<and> run_proc (ex_env offline True True) (usd2gltf_argv ex_b ex_b_out) (fs (ex_state []))
       = Exited 1
   \<and> which (ex_env offline True True) ''blender''
   \<and> WriteText (script_path ex_base) (blender_script ex_b ex_b_out)
        \<in> set (new_events (ex_state [])
                 (snd (convert_usd_to_gltf (ex_env offline True True) ex_base ex_b ex_b_out
                         (ex_state []))))
   \<and> SubprocessRun (blender_argv ex_base)
        \<in> set (new_events (ex_state [])
                 (snd (convert_usd_to_gltf (ex_env offline True True) ex_base ex_b ex_b_out
                         (ex_state []))))
   \<and> fst (convert_usd_to_gltf (ex_env offline True True) ex_base ex_b ex_b_out (ex_state []))
       = Inr False"
proof -
  have w1: "which (ex_env offline True True) ''usd2gltf''"
    and w2: "which (ex_env offline True True) ''blender''"
    by (simp_all add: ex_env_def)
  note a = converter_fallback_order [where ev = "ex_env offline True True"
      and base_dir = ex_base and usd_file = ex_a and output_path = ex_a_out and st = "ex_state []"]
  note b = converter_fallback_order [where ev = "ex_env offline True True"
      and base_dir = ex_base and usd_file = ex_b and output_path = ex_b_out and st = "ex_state []"]
  have c1: "convert_usd_to_gltf (ex_env offline True True) ex_base ex_a ex_a_out (ex_state [])
       = (Inr True,
          (ex_state [])\<lparr>trace := trace (ex_state []) @
             [LogConverting (path_name ex_a), Which ''usd2gltf'',
              SubprocessRun (usd2gltf_argv ex_a ex_a_out), LogConverted (path_name ex_a_out)]\<rparr>)"
    using a w1 ex_usd2gltf_a by blast
  have f1: "\<exists>n. n \<noteq> 0 \<and> run_proc (ex_env offline True True) (usd2gltf_argv ex_b ex_b_out)
                (fs (ex_state [])) = Exited n"
    using ex_usd2gltf_b by simp
  have f2: "\<exists>root' m. write_file (fs (ex_state [])) (script_path ex_base)
                (Raw (blender_script ex_b ex_b_out)) = Inr root'
              \<and> m \<noteq> 0 \<and> run_proc (ex_env offline True True) (blender_argv ex_base) root'
                  = Exited m"
    using ex_write_script [of "blender_script ex_b ex_b_out"] ex_blender_b by auto
  have c2: "WriteText (script_path ex_base) (blender_script ex_b ex_b_out)
        \<in> set (new_events (ex_state [])
                 (snd (convert_usd_to_gltf (ex_env offline True True) ex_base ex_b ex_b_out
                         (ex_state []))))"
    using b f1 w2 by blast
  have c3: "SubprocessRun (blender_argv ex_base)
        \<in> set (new_events (ex_state [])
                 (snd (convert_usd_to_gltf (ex_env offline True True) ex_base ex_b ex_b_out
                         (ex_state []))))"
    using b f1 w2 ex_write_script [of "blender_script ex_b ex_b_out"] by blast
  have c4: "fst (convert_usd_to_gltf (ex_env offline True True) ex_base ex_b ex_b_out
                  (ex_state [])) = Inr False"
    using b f1 f2 by blast
  show ?thesis
    using w1 w2 ex_usd2gltf_a ex_usd2gltf_b c1 c2 c3 c4 by blast
qed

text \<open>
  The claim C2 as it is stated fails for a strategy that fails without an exit status:
  with both converters installed, usd2gltf not startable and Blender working, the
  conversion raises the error of the start, returns no false, and Blender is neither
  probed nor run.
\<close>

theorem converter_unstartable_counterexample:
  "which ex_env_unstartable ''usd2gltf''
   \<and> which ex_env_unstartable ''blender''
   \<and> run_proc ex_env_unstartable (usd2gltf_argv ex_a ex_a_out) (fs (ex_state []))
       = NotStarted FileNotFoundError
   \<and> run_proc ex_env_unstartable (blender_argv ex_base)
        (ex_tree [File ''convert.py'' (Raw (blender_script ex_a ex_a_out))])
       = Exited 0
   \<and> convert_usd_to_gltf ex_env_unstartable ex_base ex_a ex_a_out (ex_state [])
       = (Inl FileNotFoundError,
          \<lparr>fs = ex_tree [], registry = [],
           trace = [LogConverting ''a.usd'', Which ''usd2gltf'',
                    SubprocessRun [''usd2gltf'', ''/work/downloads/usd/p1/a.usd'', ''-o'',
                                   ''/work/public/assets/warehouse/a.glb'']]\<rparr>)"
  by (simp add: ex_env_unstartable_def convert_usd_to_gltf_def usd2gltf_argv_def blender_argv_def
        Let_def emit_def ex_state_def path_name_def path_str_def ex_a_def ex_a_out_def)

text \<open>
  C10. Shared fixed script path of the Blender strategy: whenever the strategy runs with
  Blender installed, it writes exactly one text file, at \<open>{downloadRoot}/convert.py\<close>,
  and the text is \<open>blender_script\<close> of the input path and the output path, nothing
  else; when the write succeeds, that path holds this text afterwards, whatever it held
  before.
\<close>

theorem blender_script_fixed_path:
  assumes "which ev ''blender''"
  shows "filter is_write_text (trace (snd (try_blender ev base_dir usd_file output_path st)))
           = filter is_write_text (trace st)
             @ [WriteText (download_dir base_dir @ [''convert.py''])
                  (blender_script usd_file output_path)]
       \<and> (\<forall>root'. write_file (fs st) (download_dir base_dir @ [''convert.py''])
                     (Raw (blender_script usd_file output_path)) = Inr root' \<longrightarrow>
            lookup (fs (snd (try_blender ev base_dir usd_file output_path st)))
                (download_dir base_dir @ [''convert.py''])
              = Some (File ''convert.py'' (Raw (blender_script usd_file output_path))))"
  using assms
  by (auto simp: try_blender_def Let_def emit_def script_path_def
        dest: lookup_write_file
        split: sum.splits proc_outcome.splits)

theorem blender_script_fixed_path_witness:
  "which (ex_env offline False True) ''blender''
   \<and> lookup (fs (ex_state [File ''convert.py'' (Raw (blender_script ex_a ex_a_out))]))
        (download_dir ex_base @ [''convert.py''])
       = Some (File ''convert.py'' (Raw (blender_script ex_a ex_a_out)))
   \<and> filter is_write_text
        (trace (snd (try_blender (ex_env offline False True) ex_base ex_b ex_b_out
                       (ex_state [File ''convert.py'' (Raw (blender_script ex_a ex_a_out))]))))
       = [WriteText (download_dir ex_base @ [''convert.py'']) (blender_script ex_b ex_b_out)]
   \<and> lookup (fs (snd (try_blender (ex_env offline False True) ex_base ex_b ex_b_out
                        (ex_state [File ''convert.py'' (Raw (blender_script ex_a ex_a_out))]))))
        (download_dir ex_base @ [''convert.py''])
       = Some (File ''convert.py'' (Raw (blender_script ex_b ex_b_out)))"
proof -
  let ?S = "ex_state [File ''convert.py'' (Raw (blender_script ex_a ex_a_out))]"
  have h: "which (ex_env offline False True) ''blender''"
    by (simp add: ex_env_def offline_def)
  have old: "lookup (fs ?S) (download_dir ex_base @ [''convert.py''])
       = Some (File ''convert.py'' (Raw (blender_script ex_a ex_a_out)))"
    by (simp add: ex_state_def ex_tree_def download_dir_def ex_base_def)
  have w: "write_file (fs ?S) (download_dir ex_base @ [''convert.py''])
             (Raw (blender_script ex_b ex_b_out))
           = Inr (ex_tree [File ''convert.py'' (Raw (blender_script ex_b ex_b_out))])"
    by (simp add: ex_state_def ex_tree_def download_dir_def ex_base_def)
  note t = blender_script_fixed_path [OF h, of ex_base ex_b ex_b_out ?S]
  have c1: "filter is_write_text
        (trace (snd (try_blender (ex_env offline False True) ex_base ex_b ex_b_out ?S)))
       = [WriteText (download_dir ex_base @ [''convert.py'']) (blender_script ex_b ex_b_out)]"
    using t by (simp add: ex_state_def)
  have c2: "lookup (fs (snd (try_blender (ex_env offline False True) ex_base ex_b ex_b_out ?S)))
        (download_dir ex_base @ [''convert.py''])
       = Some (File ''convert.py'' (Raw (blender_script ex_b ex_b_out)))"
    using t w by blast
  show ?thesis using h old c1 c2 by blast
qed

subsection \<open>Location\<close>

lemma path_name_snoc: "path_name (p @ [nm]) = nm"
  by (simp add: path_name_def)

lemma matches_files:
  "usd_dir_free_kids ks \<Longrightarrow> ext \<in> set usd_extensions \<Longrightarrow>
   matches ext p ks =
     filter (\<lambda>q. ends_with ext (path_name q))
       (map (\<lambda>k. p @ [node_name k]) (filter (\<lambda>k. \<not> is_dir k) ks))"
  by (induction ks) (auto simp: matches_def path_name_snoc is_usd_name_def list_ex_iff)

lemma rglob_files:
  "usd_dir_free n \<Longrightarrow> ext \<in> set usd_extensions \<Longrightarrow>
     rglob ext p n = filter (\<lambda>q. ends_with ext (path_name q)) (rfiles p n)"
  "usd_dir_free_kids ks \<Longrightarrow> ext \<in> set usd_extensions \<Longrightarrow>
     rglob_kids ext p ks = filter (\<lambda>q. ends_with ext (path_name q)) (rfiles_kids p ks)"
proof (induction ext p n and ext p ks rule: rglob_rglob_kids.induct)
  case (2 ext p nm ks)
  then show ?case using matches_files [of ks ext p] by simp
qed simp_all

lemma path_rglob_files:
  assumes "usd_dirs_free_below root dir" and "ext \<in> set usd_extensions"
  shows "path_rglob root dir ext = filter (\<lambda>q. ends_with ext (path_name q)) (all_files root dir)"
  using assms
  by (auto simp: path_rglob_def all_files_def usd_dirs_free_below_def rglob_files
        split: option.splits)

lemma find_usd_files_unfold:
  "find_usd_files root dir =
     path_rglob root dir ''.usd'' @ path_rglob root dir ''.usda''
     @ path_rglob root dir ''.usdc'' @ path_rglob root dir ''.usdz''"
  by (simp add: find_usd_files_def usd_extensions_def)

lemma ends_with_last: "ends_with ext nm \<Longrightarrow> ext \<noteq> [] \<Longrightarrow> last nm = last ext"
  by (metis ends_with_def last_drop Nil_is_append_conv append_take_drop_id last_appendR)

text \<open>A name ends in at most one of the four extensions.\<close>

lemma usd_ext_exclusive:
  "\<not> (ends_with ''.usd'' nm \<and> ends_with ''.usda'' nm)"
  "\<not> (ends_with ''.usd'' nm \<and> ends_with ''.usdc'' nm)"
  "\<not> (ends_with ''.usd'' nm \<and> ends_with ''.usdz'' nm)"
  "\<not> (ends_with ''.usda'' nm \<and> ends_with ''.usdc'' nm)"
  "\<not> (ends_with ''.usda'' nm \<and> ends_with ''.usdz'' nm)"
  "\<not> (ends_with ''.usdc'' nm \<and> ends_with ''.usdz'' nm)"
  by (auto dest!: ends_with_last)

lemma mset_four_filters:
  "mset (filter (\<lambda>q. ends_with ''.usd'' (path_name q)) xs)
   + mset (filter (\<lambda>q. ends_with ''.usda'' (path_name q)) xs)
   + mset (filter (\<lambda>q. ends_with ''.usdc'' (path_name q)) xs)
   + mset (filter (\<lambda>q. ends_with ''.usdz'' (path_name q)) xs)
   = mset (filter (\<lambda>q. is_usd_name (path_name q)) xs)"
  using usd_ext_exclusive
  by (induction xs) (auto simp: is_usd_name_def usd_extensions_def)

text \<open>
  C7, as the code has it. For a directory tree in which no directory carries a name with
  one of the four extensions, \<^verbatim>\<open>find_usd_files\<close> returns the files whose names end
  in \<open>.usd\<close>, then those in \<open>.usda\<close>, then \<open>.usdc\<close>, then \<open>.usdz\<close>, each
  group in the order of the recursive scan. The result is a rearrangement of the sequence
  the specification describes: the same files, each as often. It is the empty sequence
  when no file matches.
\<close>

theorem find_usd_files_grouped:
  assumes "usd_dirs_free_below root dir"
  shows "find_usd_files root dir =
           concat (map (\<lambda>ext. filter (\<lambda>q. ends_with ext (path_name q)) (all_files root dir))
                     usd_extensions)
       \<and> mset (find_usd_files root dir) = mset (locate_spec root dir)
       \<and> (locate_spec root dir = [] \<longrightarrow> find_usd_files root dir = [])"
proof -
  have ex: "\<And>ext. ext \<in> set usd_extensions \<Longrightarrow>
      path_rglob root dir ext = filter (\<lambda>q. ends_with ext (path_name q)) (all_files root dir)"
    using path_rglob_files [OF assms] .
  have a: "find_usd_files root dir =
           concat (map (\<lambda>ext. filter (\<lambda>q. ends_with ext (path_name q)) (all_files root dir))
                     usd_extensions)"
    unfolding find_usd_files_unfold using ex by (simp add: usd_extensions_def)
  have b: "mset (find_usd_files root dir) = mset (locate_spec root dir)"
    unfolding a locate_spec_def using mset_four_filters [of "all_files root dir"]
    by (simp add: usd_extensions_def add.assoc)
  have c: "locate_spec root dir = [] \<longrightarrow> find_usd_files root dir = []"
    using b by (metis mset_zero_iff)
  show ?thesis using a b c by blast
qed

lemma ex7_find:
  "find_usd_files ex7_root [''pack''] = [[''pack'', ''c.usd''], [''pack'', ''b.usda'']]"
  by (simp add: find_usd_files_def usd_extensions_def path_rglob_def ex7_root_def matches_def
        ends_with_def)

lemma ex7_spec:
  "locate_spec ex7_root [''pack''] = [[''pack'', ''b.usda''], [''pack'', ''c.usd'']]"
  by (simp add: usd_extensions_def ex7_root_def ends_with_def locate_spec_def all_files_def
        is_usd_name_def path_name_def)

theorem find_usd_files_grouped_witness:
  "usd_dirs_free_below ex7_root [''pack'']
   \<and> find_usd_files ex7_root [''pack''] = [[''pack'', ''c.usd''], [''pack'', ''b.usda'']]
   \<and> mset (find_usd_files ex7_root [''pack''])
       = mset [[''pack'', ''b.usda''], [''pack'', ''c.usd'']]"
proof -
  have h: "usd_dirs_free_below ex7_root [''pack'']"
    by (simp add: usd_dirs_free_below_def ex7_root_def)
  have m: "mset (find_usd_files ex7_root [''pack'']) = mset (locate_spec ex7_root [''pack''])"
    using find_usd_files_grouped [OF h] by blast
  show ?thesis
    using h m ex7_find ex7_spec by simp
qed

text \<open>
  The claim C7 as it is stated fails on the order: with \<open>b.usda\<close> listed before
  \<open>c.usd\<close> in the directory, the scan of the specification yields them in that order
  and \<^verbatim>\<open>find_usd_files\<close> yields \<open>c.usd\<close> first.
\<close>

theorem find_usd_files_order_counterexample:
  "find_usd_files ex7_root [''pack''] = [[''pack'', ''c.usd''], [''pack'', ''b.usda'']]
   \<and> locate_spec ex7_root [''pack''] = [[''pack'', ''b.usda''], [''pack'', ''c.usd'']]
   \<and> find_usd_files ex7_root [''pack''] \<noteq> locate_spec ex7_root [''pack'']"
  using ex7_find ex7_spec by simp

subsection \<open>What each step leaves alone\<close>

text \<open>The registry changes in the last step of a pack and nowhere else.\<close>

lemma download_registry:
  "download_asset_pack ev base_dir pack_id cfg st = (r, st') \<Longrightarrow> registry st' = registry st"
  by (auto simp: download_asset_pack_def Let_def emit_def
        split: http_outcome.splits sum.splits if_splits)

lemma extract_registry:
  "extract_pack ev base_dir zp pack_id st = (r, st') \<Longrightarrow> registry st' = registry st"
  by (auto simp: extract_pack_def Let_def emit_def
        split: option.splits fsnode.splits sum.splits if_splits)

lemma try_blender_registry:
  "try_blender ev base_dir usd_file output_path st = (r, st') \<Longrightarrow> registry st' = registry st"
  by (auto simp: try_blender_def Let_def emit_def
        split: proc_outcome.splits sum.splits if_splits)

lemma convert_registry:
  "convert_usd_to_gltf ev base_dir usd_file output_path st = (r, st') \<Longrightarrow>
   registry st' = registry st"
  by (auto simp: convert_usd_to_gltf_def Let_def emit_def
        dest!: try_blender_registry
        split: proc_outcome.splits if_splits)

lemma convert_loop_registry:
  "convert_loop ev base_dir pack_id cfg files acc st = (r, st') \<Longrightarrow> registry st' = registry st"
proof (induction files arbitrary: acc st)
  case Nil
  then show ?case by simp
next
  case (Cons f files)
  obtain x st1 where c:
    "convert_usd_to_gltf ev base_dir f (gltf_output base_dir cfg f) st = (x, st1)"
    by (cases "convert_usd_to_gltf ev base_dir f (gltf_output base_dir cfg f) st")
  have r1: "registry st1 = registry st"
    using convert_registry [OF c] .
  show ?case
  proof (cases x)
    case (Inl e)
    then show ?thesis using Cons.prems c r1 by simp
  next
    case (Inr ok)
    then have "convert_loop ev base_dir pack_id cfg files
                 (if ok then acc @ [asset_metadata pack_id cfg (stem f)] else acc) st1 = (r, st')"
      using Cons.prems c by simp
    then show ?thesis using Cons.IH r1 by simp
  qed
qed

lemma locate_registry:
  "locate_pack ev base_dir pack_id cfg st = (r, st') \<Longrightarrow> registry st' = registry st"
proof -
  assume a: "locate_pack ev base_dir pack_id cfg st = (r, st')"
  obtain x st1 where d:
    "download_asset_pack ev base_dir pack_id cfg (emit [LogProcessing pack_id] st) = (x, st1)"
    by (cases "download_asset_pack ev base_dir pack_id cfg (emit [LogProcessing pack_id] st)")
  have r1: "registry st1 = registry st"
    using download_registry [OF d] by (simp add: emit_def)
  show ?thesis
  proof (cases x)
    case (Inl e)
    then show ?thesis using a d r1 by (simp add: locate_pack_def)
  next
    case (Inr zp)
    obtain y st2 where e: "extract_pack ev base_dir zp pack_id st1 = (y, st2)"
      by (cases "extract_pack ev base_dir zp pack_id st1")
    have r2: "registry st2 = registry st"
      using extract_registry [OF e] r1 by simp
    show ?thesis
      using a d e Inr r2
      by (cases y) (auto simp: locate_pack_def Let_def emit_def split: sum.splits)
  qed
qed

lemma catalog_raises_registry:
  "catalog_pack ev base_dir pack_id cfg usd_files st = (Inl e, st') \<Longrightarrow>
   registry st' = registry st"
  by (auto simp: catalog_pack_def split: prod.splits sum.splits dest: convert_loop_registry)

text \<open>
  The marker events: the log line that opens a pack, the save, and the log line that
  opens a conversion. A step leaves the markers of the trace alone when it emits none.
\<close>

lemma download_markers:
  assumes "\<And>e. P e \<Longrightarrow> is_processing e \<or> is_save e \<or> is_converting e"
  shows "filter P (trace (snd (download_asset_pack ev base_dir pack_id cfg st)))
           = filter P (trace st)"
proof -
  have n: "\<not> P (HttpGet u)" "\<not> P (OpenWrite p)" "\<not> P (WriteChunk p c)"
    "\<not> P (LogAlreadyDownloaded p)" for u p c
    using assms by fastforce+
  have m: "filter P (map (WriteChunk p) cs) = []" for p cs
    using n by (induction cs) auto
  show ?thesis
    using n m
    by (auto simp: download_asset_pack_def Let_def emit_def
          split: http_outcome.splits sum.splits)
qed

lemma extract_markers:
  assumes "\<And>e. P e \<Longrightarrow> is_processing e \<or> is_save e \<or> is_converting e"
  shows "filter P (trace (snd (extract_pack ev base_dir zp pack_id st))) = filter P (trace st)"
proof -
  have n: "\<not> P (ExtractAll p q)" "\<not> P (LogAlreadyExtracted p)" for p q
    using assms by fastforce+
  show ?thesis
    using n
    by (auto simp: extract_pack_def Let_def emit_def
          split: option.splits fsnode.splits sum.splits)
qed

lemma try_blender_markers:
  assumes "\<And>e. P e \<Longrightarrow> is_processing e \<or> is_save e \<or> is_converting e"
  shows "filter P (trace (snd (try_blender ev base_dir usd_file output_path st)))
           = filter P (trace st)"
proof -
  have n: "\<not> P (Which t)" "\<not> P (WriteText p s)" "\<not> P (SubprocessRun argv)"
    "\<not> P (LogConvertedViaBlender nm)" "\<not> P LogNoConverter" for t p s argv nm
    using assms by fastforce+
  show ?thesis
    using n
    by (auto simp: try_blender_def Let_def emit_def split: proc_outcome.splits sum.splits)
qed

lemma convert_markers:
  assumes "\<And>e. P e \<Longrightarrow> is_processing e \<or> is_save e \<or> is_converting e"
  shows "filter P (trace (snd (convert_usd_to_gltf ev base_dir usd_file output_path st)))
           = filter P (trace st) @ filter P [LogConverting (path_name usd_file)]"
proof -
  have n: "\<not> P (Which t)" "\<not> P (SubprocessRun argv)" "\<not> P (LogConverted nm)" for t argv nm
    using assms by fastforce+
  show ?thesis
    using n try_blender_markers [of P, OF assms]
    by (auto simp: convert_usd_to_gltf_def Let_def emit_def split: proc_outcome.splits)
qed


text \<open>
  The conversions that the loop starts are those of a front part of its list, in order,
  and of the whole list when the loop returns.
\<close>

lemma convert_loop_converting:
  "\<exists>k\<le>length files.
     filter is_converting (trace (snd (convert_loop ev base_dir pack_id cfg files acc st)))
       = filter is_converting (trace st) @ map (\<lambda>f. LogConverting (path_name f)) (take k files)
     \<and> (\<forall>assets. fst (convert_loop ev base_dir pack_id cfg files acc st) = Inr assets
            \<longrightarrow> k = length files)"
proof (induction files arbitrary: acc st)
  case Nil
  then show ?case by simp
next
  case (Cons f files)
  obtain x st1 where c:
    "convert_usd_to_gltf ev base_dir f (gltf_output base_dir cfg f) st = (x, st1)"
    by (cases "convert_usd_to_gltf ev base_dir f (gltf_output base_dir cfg f) st")
  have t1: "filter is_converting (trace st1)
              = filter is_converting (trace st) @ [LogConverting (path_name f)]"
    using convert_markers [of is_converting ev base_dir f "gltf_output base_dir cfg f" st] c
    by simp
  show ?case
  proof (cases x)
    case (Inl e)
    have "filter is_converting (trace (snd (convert_loop ev base_dir pack_id cfg (f # files) acc st)))
            = filter is_converting (trace st)
              @ map (\<lambda>f. LogConverting (path_name f)) (take 1 (f # files))"
      using c Inl t1 by simp
    moreover have "fst (convert_loop ev base_dir pack_id cfg (f # files) acc st) = Inl e"
      using c Inl by simp
    ultimately show ?thesis
      by (intro exI [of _ 1]) simp
  next
    case (Inr ok)
    let ?acc = "if ok then acc @ [asset_metadata pack_id cfg (stem f)] else acc"
    have step: "convert_loop ev base_dir pack_id cfg (f # files) acc st
                  = convert_loop ev base_dir pack_id cfg files ?acc st1"
      using c Inr by simp
    obtain k where k: "k \<le> length files"
      and tk: "filter is_converting (trace (snd (convert_loop ev base_dir pack_id cfg files ?acc st1)))
                 = filter is_converting (trace st1)
                   @ map (\<lambda>f. LogConverting (path_name f)) (take k files)"
      and fk: "\<forall>assets. fst (convert_loop ev base_dir pack_id cfg files ?acc st1) = Inr assets
                 \<longrightarrow> k = length files"
      using Cons.IH [of ?acc st1] by blast
    show ?thesis
      using k tk fk t1 step
      by (intro exI [of _ "Suc k"]) simp
  qed
qed

text \<open>The assets that the loop returns come from a subsequence of its list.\<close>

lemma convert_loop_assets:
  "fst (convert_loop ev base_dir pack_id cfg files acc st) = Inr assets \<Longrightarrow>
   \<exists>sub. subseq sub files \<and> assets = acc @ map (\<lambda>f. asset_metadata pack_id cfg (stem f)) sub"
proof (induction files arbitrary: acc st)
  case Nil
  then show ?case by simp
next
  case (Cons f files)
  obtain x st1 where c:
    "convert_usd_to_gltf ev base_dir f (gltf_output base_dir cfg f) st = (x, st1)"
    by (cases "convert_usd_to_gltf ev base_dir f (gltf_output base_dir cfg f) st")
  show ?case
  proof (cases x)
    case (Inl e)
    then show ?thesis using Cons.prems c by simp
  next
    case (Inr ok)
    let ?acc = "if ok then acc @ [asset_metadata pack_id cfg (stem f)] else acc"
    have "fst (convert_loop ev base_dir pack_id cfg files ?acc st1) = Inr assets"
      using Cons.prems c Inr by simp
    then obtain sub where s: "subseq sub files"
      and a: "assets = ?acc @ map (\<lambda>f. asset_metadata pack_id cfg (stem f)) sub"
      using Cons.IH [of ?acc st1] by blast
    show ?thesis
    proof (cases ok)
      case True
      then have "subseq (f # sub) (f # files)
        \<and> assets = acc @ map (\<lambda>f. asset_metadata pack_id cfg (stem f)) (f # sub)"
        using s a by simp
      then show ?thesis by blast
    next
      case False
      then have "subseq sub (f # files)
        \<and> assets = acc @ map (\<lambda>f. asset_metadata pack_id cfg (stem f)) sub"
        using s a by (simp add: list_emb_Cons)
      then show ?thesis by blast
    qed
  qed
qed

subsection \<open>One pack\<close>

lemma locate_markers:
  assumes "\<And>e. P e \<Longrightarrow> is_processing e \<or> is_save e \<or> is_converting e"
  shows "filter P (trace (snd (locate_pack ev base_dir pack_id cfg st)))
           = filter P (trace st) @ filter P [LogProcessing pack_id]"
proof -
  have n: "\<not> P (Mkdir p)" for p
    using assms by fastforce
  let ?st0 = "emit [LogProcessing pack_id] st"
  obtain x st1 where d: "download_asset_pack ev base_dir pack_id cfg ?st0 = (x, st1)"
    by (cases "download_asset_pack ev base_dir pack_id cfg ?st0")
  have t1: "filter P (trace st1) = filter P (trace st) @ filter P [LogProcessing pack_id]"
    using download_markers [of P ev base_dir pack_id cfg ?st0, OF assms] d
    by (simp add: emit_def)
  show ?thesis
  proof (cases x)
    case (Inl e)
    then show ?thesis using d t1 by (simp add: locate_pack_def)
  next
    case (Inr zp)
    obtain y st2 where e: "extract_pack ev base_dir zp pack_id st1 = (y, st2)"
      by (cases "extract_pack ev base_dir zp pack_id st1")
    have t2: "filter P (trace st2) = filter P (trace st) @ filter P [LogProcessing pack_id]"
      using extract_markers [of P ev base_dir zp pack_id st1, OF assms] e t1 by simp
    show ?thesis
      using d e Inr t2 n
      by (cases y) (auto simp: locate_pack_def Let_def emit_def split: sum.splits)
  qed
qed



lemma process_raises_registry:
  assumes "process_asset_pack ev base_dir pack_id cfg st = (Inl e, st')"
  shows "registry st' = registry st"
proof -
  obtain x st1 where l: "locate_pack ev base_dir pack_id cfg st = (x, st1)"
    by (cases "locate_pack ev base_dir pack_id cfg st")
  have r1: "registry st1 = registry st"
    using locate_registry [OF l] .
  show ?thesis
  proof (cases x)
    case (Inl e')
    then show ?thesis using assms l r1 by (simp add: process_asset_pack_def)
  next
    case (Inr usd_files)
    then have "catalog_pack ev base_dir pack_id cfg usd_files st1 = (Inl e, st')"
      using assms l by (simp add: process_asset_pack_def)
    then show ?thesis using catalog_raises_registry r1 by simp
  qed
qed

text \<open>
  C8. Batch atomicity of the registry per pack: the registry stays as it was through the
  download, the extraction, the scan and the whole conversion loop of a pack, and a pack
  whose processing raises, in whichever phase, leaves the registry exactly as it found
  it: none of its assets is recorded.
\<close>

theorem failed_pack_leaves_registry:
  "registry (snd (locate_pack ev base_dir pack_id cfg st)) = registry st
   \<and> registry (snd (convert_loop ev base_dir pack_id cfg files acc st)) = registry st
   \<and> (\<forall>e st'. process_asset_pack ev base_dir pack_id cfg st = (Inl e, st')
         \<longrightarrow> registry st' = registry st)"
proof -
  have a: "registry (snd (locate_pack ev base_dir pack_id cfg st)) = registry st"
    using locate_registry [of ev base_dir pack_id cfg st] by (metis prod.collapse)
  have b: "registry (snd (convert_loop ev base_dir pack_id cfg files acc st)) = registry st"
    using convert_loop_registry [of ev base_dir pack_id cfg files acc st] by (metis prod.collapse)
  show ?thesis
    using a b process_raises_registry by blast
qed

lemma blender_script_differs:
  "blender_script ex_b ex_b_out \<noteq> blender_script ex_a ex_a_out"
  by (simp add: blender_script_def path_str_def ex_a_def ex_b_def)

lemma ex_stems: "stem ex_a = ''a''" "stem ex_b = ''b''"
  by (simp_all add: stem_def path_name_def ex_a_def ex_b_def)

lemma ex_outputs:
  "gltf_output ex_base ex_cfg ex_a = ex_a_out" "gltf_output ex_base ex_cfg ex_b = ex_b_out"
  by (simp_all add: gltf_output_def ex_stems output_dir_def ex_base_def ex_cfg_def
        ex_a_out_def ex_b_out_def)

lemma ex8_located:
  "locate_pack (ex_env offline True True) ex_base ''p1'' ex_cfg ex8_state
     = (Inr [ex_a, ex_b],
        \<lparr>fs = Dir [] [Dir ''work''
               [Dir ''downloads''
                 [Dir ''usd''
                   [File ''p1.zip'' (Raw ''PK''), Dir ''convert.py'' [],
                    Dir ''p1'' [File ''a.usd'' (Raw []), File ''b.usd'' (Raw [])]]],
                Dir ''public'' [Dir ''assets'' [Dir ''warehouse'' []]]]],
         registry = [(''warehouse'', [asset_metadata ''p0'' ex_cfg ''z''])],
         trace = [LogProcessing ''p1'',
                  LogAlreadyDownloaded [''work'', ''downloads'', ''usd'', ''p1.zip''],
                  ExtractAll [''work'', ''downloads'', ''usd'', ''p1.zip'']
                    [''work'', ''downloads'', ''usd'', ''p1''],
                  Mkdir [''work'', ''public'', ''assets'', ''warehouse'']]\<rparr>)"
  by (simp add: locate_pack_def download_asset_pack_def extract_pack_def emit_def Let_def
        ex8_state_def ex_state_def ex_tree_def ex_env_def ex_cfg_def ex_base_def zip_path_def
        extract_dir_def download_dir_def output_dir_def fs_exists_def find_usd_files_def
        usd_extensions_def path_rglob_def matches_def ends_with_def ex_a_def ex_b_def)

lemma ex8_raises:
  "fst (process_asset_pack (ex_env offline True True) ex_base ''p1'' ex_cfg ex8_state)
     = Inl IsADirectoryError
   \<and> LogConverted ''a.glb''
       \<in> set (trace (snd (process_asset_pack (ex_env offline True True) ex_base ''p1'' ex_cfg
                             ex8_state)))"
  unfolding process_asset_pack_def ex8_located
  by (simp add: catalog_pack_def gltf_output_def stem_def path_name_def output_dir_def
        convert_usd_to_gltf_def try_blender_def emit_def Let_def ex_env_def ex_cfg_def
        usd2gltf_argv_def blender_argv_def path_str_def script_path_def download_dir_def
        ex_base_def ex_a_def ex_b_def ex_a_out_def ex_b_out_def)

theorem failed_pack_leaves_registry_witness:
  "fst (process_asset_pack (ex_env offline True True) ex_base ''p1'' ex_cfg ex8_state)
     = Inl IsADirectoryError
   \<and> LogConverted ''a.glb''
       \<in> set (trace (snd (process_asset_pack (ex_env offline True True) ex_base ''p1'' ex_cfg
                             ex8_state)))
   \<and> registry (snd (process_asset_pack (ex_env offline True True) ex_base ''p1'' ex_cfg ex8_state))
       = [(''warehouse'', [asset_metadata ''p0'' ex_cfg ''z''])]"
proof -
  let ?r = "process_asset_pack (ex_env offline True True) ex_base ''p1'' ex_cfg ex8_state"
  have e: "?r = (Inl IsADirectoryError, snd ?r)"
    using ex8_raises by (metis prod.collapse)
  have "registry (snd ?r) = registry ex8_state"
    using e failed_pack_leaves_registry [of "ex_env offline True True" ex_base "''p1''" ex_cfg
        ex8_state] by blast
  then show ?thesis
    using ex8_raises by (simp add: ex8_state_def)
qed

subsection \<open>Conversions that return\<close>

lemma outcomes_length:
  "conversion_outcomes ev base_dir cfg files st = map Inr oks \<Longrightarrow> length oks = length files"
proof (induction files arbitrary: st oks)
  case Nil
  then show ?case by simp
next
  case (Cons f files)
  obtain x st1 where c:
    "convert_usd_to_gltf ev base_dir f (gltf_output base_dir cfg f) st = (x, st1)"
    by (cases "convert_usd_to_gltf ev base_dir f (gltf_output base_dir cfg f) st")
  show ?case
  proof (cases x)
    case (Inl e)
    then show ?thesis using Cons.prems c by (cases oks) auto
  next
    case (Inr ok)
    then obtain oks' where "oks = ok # oks'"
      and "conversion_outcomes ev base_dir cfg files st1 = map Inr oks'"
      using Cons.prems c by (cases oks) auto
    then show ?thesis using Cons.IH by auto
  qed
qed

text \<open>
  When every conversion of the list returns, the loop returns, and it returns the
  metadata of the files whose conversion returned true, in the order of the list.
\<close>

lemma loop_of_outcomes:
  "conversion_outcomes ev base_dir cfg files st = map Inr oks \<Longrightarrow>
   \<exists>st'. convert_loop ev base_dir pack_id cfg files acc st
           = (Inr (acc @ map (\<lambda>f. asset_metadata pack_id cfg (stem f)) (selected files oks)), st')"
proof (induction files arbitrary: st oks acc)
  case Nil
  then show ?case by (simp add: selected_def)
next
  case (Cons f files)
  obtain x st1 where c:
    "convert_usd_to_gltf ev base_dir f (gltf_output base_dir cfg f) st = (x, st1)"
    by (cases "convert_usd_to_gltf ev base_dir f (gltf_output base_dir cfg f) st")
  show ?case
  proof (cases x)
    case (Inl e)
    then show ?thesis using Cons.prems c by (cases oks) auto
  next
    case (Inr ok)
    then obtain oks' where o: "oks = ok # oks'"
      and r: "conversion_outcomes ev base_dir cfg files st1 = map Inr oks'"
      using Cons.prems c by (cases oks) auto
    let ?acc = "if ok then acc @ [asset_metadata pack_id cfg (stem f)] else acc"
    obtain st' where
      "convert_loop ev base_dir pack_id cfg files ?acc st1
         = (Inr (?acc @ map (\<lambda>f. asset_metadata pack_id cfg (stem f)) (selected files oks')), st')"
      using Cons.IH [OF r, of ?acc] by blast
    then have "convert_loop ev base_dir pack_id cfg (f # files) acc st
         = (Inr (acc @ map (\<lambda>f. asset_metadata pack_id cfg (stem f))
                         (selected (f # files) oks)), st')"
      using c Inr o by (simp add: selected_def)
    then show ?thesis by blast
  qed
qed

lemma selected_length:
  "length oks = length xs \<Longrightarrow> length (selected xs oks) = length xs - length (filter Not oks)"
proof (induction xs arbitrary: oks)
  case Nil
  then show ?case by (simp add: selected_def)
next
  case (Cons x xs)
  then obtain ok oks' where o: "oks = ok # oks'" and l: "length oks' = length xs"
    by (cases oks) auto
  have le: "length (filter Not oks') \<le> length xs"
    using l length_filter_le [of Not oks'] by simp
  have "length (selected xs oks') = length xs - length (filter Not oks')"
    using Cons.IH [OF l] .
  then show ?case
    using o le by (cases ok) (auto simp: selected_def)
qed

lemma process_of_outcomes:
  assumes loc: "locate_pack ev base_dir pack_id cfg st = (Inr usd_files, st1)"
    and out: "conversion_outcomes ev base_dir cfg (take 10 usd_files) st1 = map Inr oks"
  shows "\<exists>st'. process_asset_pack ev base_dir pack_id cfg st = (Inr (), st')
           \<and> entries (registry st') (category cfg)
               = entries (registry st) (category cfg)
                 @ map (\<lambda>f. asset_metadata pack_id cfg (stem f)) (selected (take 10 usd_files) oks)
           \<and> length (entries (registry st') (category cfg))
               = length (entries (registry st) (category cfg))
                 + (min (length usd_files) 10 - length (filter Not oks))
           \<and> (\<forall>c'. c' \<noteq> category cfg \<longrightarrow> map_of (registry st') c' = map_of (registry st) c')"
proof -
  let ?new = "map (\<lambda>f. asset_metadata pack_id cfg (stem f)) (selected (take 10 usd_files) oks)"
  obtain st2 where l:
    "convert_loop ev base_dir pack_id cfg (take 10 usd_files) [] st1 = (Inr ?new, st2)"
    using loop_of_outcomes [OF out, of pack_id "[]"] by auto
  have r: "registry st2 = registry st"
    using convert_loop_registry [OF l] locate_registry [OF loc] by simp
  let ?st' = "emit [LogProcessed (length ?new)]
                (st2\<lparr>registry := update_registry (category cfg) ?new (registry st2)\<rparr>)"
  have p: "process_asset_pack ev base_dir pack_id cfg st = (Inr (), ?st')"
    using loc l by (simp add: process_asset_pack_def catalog_pack_def)
  have reg: "registry ?st' = update_registry (category cfg) ?new (registry st)"
    using r by (simp add: emit_def)
  have e: "entries (registry ?st') (category cfg) = entries (registry st) (category cfg) @ ?new"
    using reg entries_update_same by simp
  have n: "length ?new = min (length usd_files) 10 - length (filter Not oks)"
    using selected_length [of oks "take 10 usd_files"] outcomes_length [OF out] by simp
  have o: "\<forall>c'. c' \<noteq> category cfg \<longrightarrow> map_of (registry ?st') c' = map_of (registry st) c'"
    using reg map_of_update_other by simp
  show ?thesis
    using p e n o by (intro exI [of _ ?st']) simp
qed

text \<open>
  C3, as the code has it. For every pack whose archive is downloaded and extracted,
  whose scan finds N scene files and whose category directory exists or is created
  (\<open>locate_pack\<close> returns the N files): when each conversion of the first
  min(N, 10) of them returns, true or false, and M of these return false, the pack
  completes and exactly min(N, 10) - M entries are added behind the entries of the
  category of the pack: the metadata of the files that converted, in the order of the
  scan. This holds for M = min(N, 10) as well. The other categories are unchanged.
\<close>

theorem per_asset_isolation_count:
  assumes "locate_pack ev base_dir pack_id cfg st = (Inr usd_files, st1)"
    and "conversion_outcomes ev base_dir cfg (take 10 usd_files) st1 = map Inr oks"
  shows "\<exists>st'. process_asset_pack ev base_dir pack_id cfg st = (Inr (), st')
           \<and> entries (registry st') (category cfg)
               = entries (registry st) (category cfg)
                 @ map (\<lambda>f. asset_metadata pack_id cfg (stem f)) (selected (take 10 usd_files) oks)
           \<and> length (entries (registry st') (category cfg))
               = length (entries (registry st) (category cfg))
                 + (min (length usd_files) 10 - length (filter Not oks))
           \<and> (\<forall>c'. c' \<noteq> category cfg \<longrightarrow> map_of (registry st') c' = map_of (registry st) c')"
  using assms by (rule process_of_outcomes)

lemma ex_locate:
  "locate_pack (ex_env ex_server False True) ex_base ''p1'' ex_cfg (ex_state [])
     = (Inr [ex_a, ex_b], ex_located)"
  by (simp add: locate_pack_def download_asset_pack_def extract_pack_def emit_def Let_def
        ex_located_def ex_state_def ex_tree_def ex_env_def ex_server_def ex_cfg_def ex_base_def
        zip_path_def extract_dir_def download_dir_def output_dir_def fs_exists_def
        raise_for_status_def find_usd_files_def usd_extensions_def path_rglob_def matches_def
        ends_with_def ex_a_def ex_b_def)

lemma ex_outcomes:
  "conversion_outcomes (ex_env ex_server False True) ex_base ex_cfg [ex_a, ex_b] ex_located
     = [Inr True, Inr False]"
  by (simp add: gltf_output_def stem_def path_name_def output_dir_def
        convert_usd_to_gltf_def try_blender_def emit_def Let_def ex_env_def ex_cfg_def
        ex_located_def usd2gltf_argv_def blender_argv_def path_str_def script_path_def
        download_dir_def blender_script_def
        ex_base_def ex_a_def ex_b_def ex_a_out_def ex_b_out_def)

theorem per_asset_isolation_count_witness:
  "locate_pack (ex_env ex_server False True) ex_base ''p1'' ex_cfg (ex_state [])
     = (Inr [ex_a, ex_b], ex_located)
   \<and> conversion_outcomes (ex_env ex_server False True) ex_base ex_cfg (take 10 [ex_a, ex_b])
        ex_located = map Inr [True, False]
   \<and> fst (process_asset_pack (ex_env ex_server False True) ex_base ''p1'' ex_cfg (ex_state []))
       = Inr ()
   \<and> entries (registry (snd (process_asset_pack (ex_env ex_server False True) ex_base ''p1''
                                ex_cfg (ex_state []))))
        ''warehouse''
       = [asset_metadata ''p1'' ex_cfg ''a'']
   \<and> asset_id (asset_metadata ''p1'' ex_cfg ''a'') = ''p1_a''
   \<and> asset_path (asset_metadata ''p1'' ex_cfg ''a'') = ''/assets/warehouse/a.glb''"
proof -
  have o: "conversion_outcomes (ex_env ex_server False True) ex_base ex_cfg (take 10 [ex_a, ex_b])
        ex_located = map Inr [True, False]"
    using ex_outcomes by simp
  obtain st' where p: "process_asset_pack (ex_env ex_server False True) ex_base ''p1'' ex_cfg
                         (ex_state []) = (Inr (), st')"
    and e: "entries (registry st') (category ex_cfg)
              = entries (registry (ex_state [])) (category ex_cfg)
                @ map (\<lambda>f. asset_metadata ''p1'' ex_cfg (stem f))
                    (selected (take 10 [ex_a, ex_b]) [True, False])"
    using per_asset_isolation_count [OF ex_locate o] by blast
  have "entries (registry st') ''warehouse'' = [asset_metadata ''p1'' ex_cfg ''a'']"
    using e by (simp add: selected_def ex_stems entries_def ex_state_def ex_cfg_def)
  then show ?thesis
    using ex_locate o p by (simp add: asset_metadata_def ex_cfg_def)
qed

lemma ok_convert:
  "convert_usd_to_gltf ex_env_ok base_dir usd_file output_path st
     = (Inr True,
        emit [LogConverting (path_name usd_file), Which ''usd2gltf'',
              SubprocessRun (usd2gltf_argv usd_file output_path),
              LogConverted (path_name output_path)] st)"
  by (simp add: convert_usd_to_gltf_def ex_env_ok_def Let_def emit_def)

lemma ok_outcomes:
  "conversion_outcomes ex_env_ok base_dir cfg files st = map (\<lambda>f. Inr True) files"
  by (induction files arbitrary: st) (simp_all add: ok_convert)

lemma ex11_locate:
  "fst (locate_pack ex_env_ok ex_base ''p1'' ex_cfg ex11_state) = Inr ex11_paths"
  by (simp add: locate_pack_def download_asset_pack_def extract_pack_def emit_def Let_def
        ex11_state_def ex11_files_def ex11_paths_def ex_state_def ex_tree_def ex_cfg_def
        ex_base_def zip_path_def extract_dir_def download_dir_def output_dir_def fs_exists_def
        find_usd_files_def usd_extensions_def path_rglob_def matches_def ends_with_def)

lemma ex11_take: "take 10 ex11_paths = butlast ex11_paths" "length ex11_paths = 11"
  by (simp_all add: ex11_paths_def)

lemma ex11_process:
  "fst (process_asset_pack ex_env_ok ex_base ''p1'' ex_cfg ex11_state) = Inr ()
   \<and> entries (registry (snd (process_asset_pack ex_env_ok ex_base ''p1'' ex_cfg ex11_state)))
        ''warehouse''
       = map (\<lambda>f. asset_metadata ''p1'' ex_cfg (stem f)) (take 10 ex11_paths)"
proof -
  let ?st1 = "snd (locate_pack ex_env_ok ex_base ''p1'' ex_cfg ex11_state)"
  have loc: "locate_pack ex_env_ok ex_base ''p1'' ex_cfg ex11_state = (Inr ex11_paths, ?st1)"
    using ex11_locate by (metis prod.collapse)
  have out: "conversion_outcomes ex_env_ok ex_base ex_cfg (take 10 ex11_paths) ?st1
               = map Inr (replicate 10 True)"
    by (simp add: ok_outcomes ex11_take map_replicate_const)
  have sel: "selected (take 10 ex11_paths) (replicate 10 True) = take 10 ex11_paths"
    by (simp add: selected_def ex11_paths_def numeral_eq_Suc)
  obtain st' where "process_asset_pack ex_env_ok ex_base ''p1'' ex_cfg ex11_state = (Inr (), st')"
    and "entries (registry st') (category ex_cfg)
           = entries (registry ex11_state) (category ex_cfg)
             @ map (\<lambda>f. asset_metadata ''p1'' ex_cfg (stem f))
                 (selected (take 10 ex11_paths) (replicate 10 True))"
    using process_of_outcomes [OF loc out] by blast
  then show ?thesis
    using sel by (simp add: entries_def ex11_state_def ex_state_def ex_cfg_def)
qed

text \<open>
  The category directory is part of the condition: where its path is taken by a regular
  file, the scan finds its file, no conversion is started, and the pack raises and adds
  nothing.
\<close>

lemma ex_blocked_category:
  "find_usd_files (fs ex_blocked_state) (extract_dir ex_base ''p1'') = [ex_a]
   \<and> fst (process_asset_pack ex_env_ok ex_base ''p1'' ex_cfg ex_blocked_state)
       = Inl FileExistsError
   \<and> filter is_converting
        (trace (snd (process_asset_pack ex_env_ok ex_base ''p1'' ex_cfg ex_blocked_state))) = []
   \<and> registry (snd (process_asset_pack ex_env_ok ex_base ''p1'' ex_cfg ex_blocked_state)) = []"
  by (simp add: process_asset_pack_def locate_pack_def download_asset_pack_def extract_pack_def
        emit_def Let_def ex_blocked_state_def ex_cfg_def ex_base_def zip_path_def
        extract_dir_def download_dir_def output_dir_def fs_exists_def find_usd_files_def
        usd_extensions_def path_rglob_def matches_def ends_with_def ex_a_def)

text \<open>
  The claim C3 as it is stated fails for a pack with more than ten scene files: with
  N = 11 files found and no conversion failing (M = 0), the pack completes and 10
  entries are added, not N - M = 11.
\<close>

theorem per_asset_count_counterexample:
  "fst (locate_pack ex_env_ok ex_base ''p1'' ex_cfg ex11_state) = Inr ex11_paths
   \<and> length ex11_paths = 11
   \<and> conversion_outcomes ex_env_ok ex_base ex_cfg ex11_paths
        (snd (locate_pack ex_env_ok ex_base ''p1'' ex_cfg ex11_state))
       = replicate 11 (Inr True)
   \<and> fst (process_asset_pack ex_env_ok ex_base ''p1'' ex_cfg ex11_state) = Inr ()
   \<and> entries (registry ex11_state) ''warehouse'' = []
   \<and> length (entries (registry (snd (process_asset_pack ex_env_ok ex_base ''p1'' ex_cfg
                                        ex11_state))) ''warehouse'') = 10"
  using ex11_locate ex11_process
  by (simp add: ok_outcomes ex11_take map_replicate_const entries_def ex11_state_def
        ex_state_def)

subsection \<open>The cap of ten files\<close>

lemma catalog_converting:
  "\<exists>k\<le>10. filter is_converting (trace (snd (catalog_pack ev base_dir pack_id cfg usd_files st)))
             = filter is_converting (trace st)
               @ map (\<lambda>f. LogConverting (path_name f)) (take k usd_files)
     \<and> (fst (catalog_pack ev base_dir pack_id cfg usd_files st) = Inr ()
          \<longrightarrow> take k usd_files = take 10 usd_files)"
proof -
  let ?files = "take 10 usd_files"
  let ?r = "convert_loop ev base_dir pack_id cfg ?files [] st"
  obtain k where k: "k \<le> length ?files"
    and t: "filter is_converting (trace (snd ?r))
              = filter is_converting (trace st)
                @ map (\<lambda>f. LogConverting (path_name f)) (take k ?files)"
    and f: "\<forall>assets. fst ?r = Inr assets \<longrightarrow> k = length ?files"
    using convert_loop_converting [of ?files ev base_dir pack_id cfg "[]" st] by blast
  have k10: "k \<le> 10" using k by simp
  then have tk: "take k ?files = take k usd_files"
    by (simp add: min_def)
  obtain x st1 where c: "?r = (x, st1)"
    by (cases ?r)
  have a: "filter is_converting (trace (snd (catalog_pack ev base_dir pack_id cfg usd_files st)))
             = filter is_converting (trace st)
               @ map (\<lambda>f. LogConverting (path_name f)) (take k usd_files)"
    using c t tk by (cases x) (simp_all add: catalog_pack_def emit_def)
  have b: "fst (catalog_pack ev base_dir pack_id cfg usd_files st) = Inr ()
             \<longrightarrow> take k usd_files = take 10 usd_files"
  proof
    assume "fst (catalog_pack ev base_dir pack_id cfg usd_files st) = Inr ()"
    then obtain assets where "x = Inr assets"
      using c by (cases x) (simp_all add: catalog_pack_def)
    then have "k = length ?files"
      using f c by simp
    then show "take k usd_files = take 10 usd_files"
      by (cases "length usd_files \<le> 10") (simp_all add: min_def)
  qed
  show ?thesis using k10 a b by blast
qed

lemma catalog_entries:
  "\<exists>sub. subseq sub (take 10 usd_files)
     \<and> entries (registry (snd (catalog_pack ev base_dir pack_id cfg usd_files st))) (category cfg)
         = entries (registry st) (category cfg)
           @ map (\<lambda>f. asset_metadata pack_id cfg (stem f)) sub"
proof -
  let ?r = "convert_loop ev base_dir pack_id cfg (take 10 usd_files) [] st"
  obtain x st1 where c: "?r = (x, st1)"
    by (cases ?r)
  have r1: "registry st1 = registry st"
    using convert_loop_registry [OF c] .
  show ?thesis
  proof (cases x)
    case (Inl e)
    then have "entries (registry (snd (catalog_pack ev base_dir pack_id cfg usd_files st)))
                 (category cfg)
               = entries (registry st) (category cfg)
                 @ map (\<lambda>f. asset_metadata pack_id cfg (stem f)) []"
      using c r1 by (simp add: catalog_pack_def)
    then show ?thesis
      by (intro exI [of _ "[]"]) simp
  next
    case (Inr assets)
    then obtain sub where s: "subseq sub (take 10 usd_files)"
      and a: "assets = map (\<lambda>f. asset_metadata pack_id cfg (stem f)) sub"
      using convert_loop_assets [of ev base_dir pack_id cfg "take 10 usd_files" "[]" st assets] c
      by auto
    have "entries (registry (snd (catalog_pack ev base_dir pack_id cfg usd_files st)))
            (category cfg)
          = entries (registry st) (category cfg) @ assets"
      using c Inr r1 by (simp add: catalog_pack_def emit_def entries_update_same)
    then show ?thesis using s a by blast
  qed
qed

text \<open>
  C6. Hard cap per pack: with the sequence \<open>usd_files\<close> that the scan has returned,
  processing the pack is the conversion and cataloguing of its first ten files alone, so
  that the files behind the tenth have no part in the result. The conversions that are
  started are those of a front part of at most ten files of the sequence, in order, and
  of exactly the first ten (all, when there are fewer) when the pack completes. The
  entries that the pack adds come from a subsequence of the first ten files, and are at
  most ten.
\<close>

theorem first_ten_only:
  assumes "locate_pack ev base_dir pack_id cfg st = (Inr usd_files, st1)"
  shows "process_asset_pack ev base_dir pack_id cfg st
           = catalog_pack ev base_dir pack_id cfg (take 10 usd_files) st1
       \<and> (\<exists>k\<le>10.
             filter is_converting (trace (snd (process_asset_pack ev base_dir pack_id cfg st)))
               = filter is_converting (trace st)
                 @ map (\<lambda>f. LogConverting (path_name f)) (take k usd_files)
             \<and> (fst (process_asset_pack ev base_dir pack_id cfg st) = Inr ()
                   \<longrightarrow> take k usd_files = take 10 usd_files))
       \<and> (\<exists>sub. subseq sub (take 10 usd_files)
             \<and> entries (registry (snd (process_asset_pack ev base_dir pack_id cfg st)))
                   (category cfg)
                 = entries (registry st) (category cfg)
                   @ map (\<lambda>f. asset_metadata pack_id cfg (stem f)) sub)
       \<and> length (entries (registry (snd (process_asset_pack ev base_dir pack_id cfg st)))
                   (category cfg))
           \<le> length (entries (registry st) (category cfg)) + 10"
proof -
  have p: "process_asset_pack ev base_dir pack_id cfg st
             = catalog_pack ev base_dir pack_id cfg usd_files st1"
    using assms by (simp add: process_asset_pack_def)
  have a: "catalog_pack ev base_dir pack_id cfg usd_files st1
             = catalog_pack ev base_dir pack_id cfg (take 10 usd_files) st1"
    by (simp add: catalog_pack_def)
  have t1: "filter is_converting (trace st1) = filter is_converting (trace st)"
    using locate_markers [of is_converting ev base_dir pack_id cfg st] assms by simp
  have r1: "registry st1 = registry st"
    using locate_registry [OF assms] .
  have b: "\<exists>k\<le>10.
             filter is_converting (trace (snd (process_asset_pack ev base_dir pack_id cfg st)))
               = filter is_converting (trace st)
                 @ map (\<lambda>f. LogConverting (path_name f)) (take k usd_files)
             \<and> (fst (process_asset_pack ev base_dir pack_id cfg st) = Inr ()
                   \<longrightarrow> take k usd_files = take 10 usd_files)"
    using catalog_converting [of ev base_dir pack_id cfg usd_files st1] p t1 by simp
  obtain sub where s: "subseq sub (take 10 usd_files)"
    and e: "entries (registry (snd (process_asset_pack ev base_dir pack_id cfg st))) (category cfg)
              = entries (registry st) (category cfg)
                @ map (\<lambda>f. asset_metadata pack_id cfg (stem f)) sub"
    using catalog_entries [of usd_files ev base_dir pack_id cfg st1] p r1 by auto
  have "length sub \<le> length (take 10 usd_files)"
    using s by (rule list_emb_length)
  then have l: "length (entries (registry (snd (process_asset_pack ev base_dir pack_id cfg st)))
                   (category cfg))
           \<le> length (entries (registry st) (category cfg)) + 10"
    using e by simp
  show ?thesis
    using p a b s e l by auto
qed

theorem first_ten_only_witness:
  "locate_pack ex_env_ok ex_base ''p1'' ex_cfg ex11_state
     = (Inr ex11_paths, snd (locate_pack ex_env_ok ex_base ''p1'' ex_cfg ex11_state))
   \<and> length ex11_paths = 11
   \<and> process_asset_pack ex_env_ok ex_base ''p1'' ex_cfg ex11_state
       = catalog_pack ex_env_ok ex_base ''p1'' ex_cfg (take 10 ex11_paths)
           (snd (locate_pack ex_env_ok ex_base ''p1'' ex_cfg ex11_state))
   \<and> filter is_converting
        (trace (snd (process_asset_pack ex_env_ok ex_base ''p1'' ex_cfg ex11_state)))
       = map (\<lambda>f. LogConverting (path_name f)) (take 10 ex11_paths)
   \<and> length (entries (registry (snd (process_asset_pack ex_env_ok ex_base ''p1'' ex_cfg
                                        ex11_state))) ''warehouse'') = 10"
proof -
  let ?st1 = "snd (locate_pack ex_env_ok ex_base ''p1'' ex_cfg ex11_state)"
  let ?p = "process_asset_pack ex_env_ok ex_base ''p1'' ex_cfg ex11_state"
  have loc: "locate_pack ex_env_ok ex_base ''p1'' ex_cfg ex11_state = (Inr ex11_paths, ?st1)"
    using ex11_locate by (metis prod.collapse)
  note t = first_ten_only [OF loc]
  have a: "?p = catalog_pack ex_env_ok ex_base ''p1'' ex_cfg (take 10 ex11_paths) ?st1"
    using t by blast
  obtain k where "filter is_converting (trace (snd ?p))
               = filter is_converting (trace ex11_state)
                 @ map (\<lambda>f. LogConverting (path_name f)) (take k ex11_paths)"
    and "fst ?p = Inr () \<longrightarrow> take k ex11_paths = take 10 ex11_paths"
    using t by blast
  then have b: "filter is_converting (trace (snd ?p))
                  = map (\<lambda>f. LogConverting (path_name f)) (take 10 ex11_paths)"
    using ex11_process by (simp add: ex11_state_def ex_state_def)
  have c: "length (entries (registry (snd ?p)) ''warehouse'') = 10"
    using ex11_process by (simp add: ex11_take)
  show ?thesis
    using loc a b c ex11_take by simp
qed

subsection \<open>The run\<close>



lemma run_loop_append:
  "run_loop ev base_dir (ps @ qs) st = run_loop ev base_dir qs (run_loop ev base_dir ps st)"
  by (induction ps arbitrary: st) (auto split: prod.splits sum.splits)






end
